theory Spec2Isabelle
  imports Main "HOL-Library.Char_ord" "HOL-Library.List_Lexorder"
begin

chapter \<open>nitrus: state machine, HTTP client, XML and TCP client\<close>

section \<open>String.hpp\<close>

text \<open>
  \<^verbatim>\<open>std::string\<close> is a \<^typ>\<open>string\<close>; its \<^verbatim>\<open>operator<\<close> is the
  lexicographic order on the character codes, which is the order of
  \<^theory_text>\<open>List_Lexorder\<close> over \<^theory_text>\<open>Char_ord\<close>.
  \<^verbatim>\<open>::tolower\<close> in the C locale maps the 26 capital letters and nothing else.
\<close>

definition tolower :: "char \<Rightarrow> char" where
  "tolower c =
     (case map_of (zip ''ABCDEFGHIJKLMNOPQRSTUVWXYZ'' ''abcdefghijklmnopqrstuvwxyz'') c of
        Some l \<Rightarrow> l
      | None \<Rightarrow> c)"

definition ToLowerCase :: "string \<Rightarrow> string" where
  "ToLowerCase v = map tolower v"

text \<open>
  \<^verbatim>\<open>String::Replace(value, pre, post)\<close> scans from index 0, replaces the first
  occurrence of \<open>pre\<close> at or after the index and continues behind the inserted
  \<open>post\<close>. With an empty \<open>pre\<close> every search succeeds where it starts and the
  loop never ends: that call has no result.
\<close>

fun Replace_from :: "string \<Rightarrow> string \<Rightarrow> string \<Rightarrow> string" where
  "Replace_from pre post [] = []"
| "Replace_from pre post (c # cs) =
     (if pre \<noteq> [] \<and> take (length pre) (c # cs) = pre
      then post @ Replace_from pre post (drop (length pre) (c # cs))
      else c # Replace_from pre post cs)"

definition Replace :: "string \<Rightarrow> string \<Rightarrow> string \<Rightarrow> string option" where
  "Replace v pre post = (if pre = [] then None else Some (Replace_from pre post v))"

section \<open>Xml.hpp: the document model\<close>

datatype XmlAttribute =
  XmlAttribute (attribute_namespace: string) (attribute_name: string) (attribute_value: string)

text \<open>
  \<^verbatim>\<open>ElementCollection\<close> is a \<^verbatim>\<open>std::multimap<std::string, XmlElement>\<close> and
  \<^verbatim>\<open>AttributeCollection\<close> a \<^verbatim>\<open>std::map<std::string, XmlAttribute>\<close>: both are
  kept here as the list of their entries in iteration order, which is ascending in
  the key.
\<close>

datatype XmlElement =
  XmlElement (element_namespace: string) (element_name: string) (element_value: string)
    (Elements: "(string \<times> XmlElement) list") (Attributes: "(string \<times> XmlAttribute) list")

definition NullElement :: XmlElement where
  "NullElement = XmlElement [] [] [] [] []"

definition NullAttribute :: XmlAttribute where
  "NullAttribute = XmlAttribute [] [] []"

definition Exists :: "XmlElement \<Rightarrow> bool" where
  "Exists e = (element_name e \<noteq> [])"

definition attribute_Exists :: "XmlAttribute \<Rightarrow> bool" where
  "attribute_Exists a = (attribute_name a \<noteq> [])"

definition Key :: "string \<Rightarrow> string \<Rightarrow> string" where
  "Key ns name = ToLowerCase (ns @ '':'' @ name)"

text \<open>
  \<^verbatim>\<open>find(key)\<close>: the position of the first entry with that key.
  \<^verbatim>\<open>insert\<close> puts a new entry behind every entry whose key is not greater
  (the upper bound of the key).
\<close>

fun find_key :: "string \<Rightarrow> (string \<times> 'a) list \<Rightarrow> nat option" where
  "find_key k [] = None"
| "find_key k (e # es) =
     (if fst e = k then Some 0 else map_option Suc (find_key k es))"

definition upper_bound :: "string \<Rightarrow> (string \<times> 'a) list \<Rightarrow> nat" where
  "upper_bound k es = length (takeWhile (\<lambda>e. \<not> k < fst e) es)"

definition insert_entry :: "string \<times> 'a \<Rightarrow> (string \<times> 'a) list \<Rightarrow> (string \<times> 'a) list" where
  "insert_entry e es = take (upper_bound (fst e) es) es @ e # drop (upper_bound (fst e) es) es"

text \<open>
  The non-const members return a reference into the collection. The model returns
  the element after the call together with the position the reference points to;
  \<open>Element_Value\<close> and \<open>Attribute_Value\<close> are \<^verbatim>\<open>.Value(v)\<close> called through
  such a reference.
\<close>

definition Add :: "XmlElement \<Rightarrow> string \<Rightarrow> string \<Rightarrow> XmlElement \<times> nat" where
  "Add e ns name =
     (case e of XmlElement n m v es as \<Rightarrow>
        (XmlElement n m v (insert_entry (Key ns name, XmlElement ns name [] [] []) es) as,
         upper_bound (Key ns name) es))"

definition Element_const :: "XmlElement \<Rightarrow> string \<Rightarrow> string \<Rightarrow> XmlElement" where
  "Element_const e ns name =
     (case find_key (Key ns name) (Elements e) of
        None \<Rightarrow> NullElement
      | Some i \<Rightarrow> snd (Elements e ! i))"

definition Element :: "XmlElement \<Rightarrow> string \<Rightarrow> string \<Rightarrow> XmlElement \<times> nat" where
  "Element e ns name =
     (case find_key (Key ns name) (Elements e) of
        None \<Rightarrow> Add e ns name
      | Some i \<Rightarrow> (e, i))"

definition Attribute_const :: "XmlElement \<Rightarrow> string \<Rightarrow> string \<Rightarrow> XmlAttribute" where
  "Attribute_const e ns name =
     (case find_key (Key ns name) (Attributes e) of
        None \<Rightarrow> NullAttribute
      | Some i \<Rightarrow> snd (Attributes e ! i))"

definition Attribute :: "XmlElement \<Rightarrow> string \<Rightarrow> string \<Rightarrow> XmlElement \<times> nat" where
  "Attribute e ns name =
     (case find_key (Key ns name) (Attributes e) of
        None \<Rightarrow>
          (case e of XmlElement n m v es as \<Rightarrow>
             (XmlElement n m v es (insert_entry (Key ns name, XmlAttribute ns name []) as),
              upper_bound (Key ns name) as))
      | Some i \<Rightarrow> (e, i))"

definition set_element_value :: "string \<Rightarrow> XmlElement \<Rightarrow> XmlElement" where
  "set_element_value v e = (case e of XmlElement n m _ es as \<Rightarrow> XmlElement n m v es as)"

definition set_attribute_value :: "string \<Rightarrow> XmlAttribute \<Rightarrow> XmlAttribute" where
  "set_attribute_value v a = (case a of XmlAttribute n m _ \<Rightarrow> XmlAttribute n m v)"

definition Element_Value :: "XmlElement \<times> nat \<Rightarrow> string \<Rightarrow> XmlElement" where
  "Element_Value r v =
     (case r of (XmlElement n m w es as, i) \<Rightarrow>
        XmlElement n m w (es[i := (fst (es ! i), set_element_value v (snd (es ! i)))]) as)"

definition Attribute_Value :: "XmlElement \<times> nat \<Rightarrow> string \<Rightarrow> XmlElement" where
  "Attribute_Value r v =
     (case r of (XmlElement n m w es as, i) \<Rightarrow>
        XmlElement n m w es (as[i := (fst (as ! i), set_attribute_value v (snd (as ! i)))]))"

subsection \<open>Serialisation\<close>

definition Escape :: "string \<Rightarrow> string option" where
  "Escape v =
     Option.bind (Replace v ''&'' ''&amp;'') (\<lambda>e1.
     Option.bind (Replace e1 [CHR 0x27] ''&apos;'') (\<lambda>e2.
     Option.bind (Replace e2 [CHR 0x22] ''&quot;'') (\<lambda>e3.
     Option.bind (Replace e3 ''<'' ''&lt;'') (\<lambda>e4.
     Replace e4 ''>'' ''&gt;''))))"

definition qualified_name :: "string \<Rightarrow> string \<Rightarrow> string" where
  "qualified_name ns name = (if ns \<noteq> [] then ns @ '':'' else []) @ name"

definition attribute_string :: "XmlAttribute \<Rightarrow> string" where
  "attribute_string a =
     '' '' @ qualified_name (attribute_namespace a) (attribute_name a)
       @ [CHR ''='', CHR 0x27] @ attribute_value a @ [CHR 0x27]"

definition ToStartElementString :: "XmlElement \<Rightarrow> string \<Rightarrow> string" where
  "ToStartElementString e buffer =
     buffer @ ''<'' @ qualified_name (element_namespace e) (element_name e)
       @ concat (map (\<lambda>i. attribute_string (snd i)) (Attributes e)) @ ''>''"

definition ToEndElementString :: "XmlElement \<Rightarrow> string \<Rightarrow> string" where
  "ToEndElementString e buffer =
     buffer @ ''</'' @ qualified_name (element_namespace e) (element_name e) @ ''>''"

fun ToString_into :: "XmlElement \<Rightarrow> string \<Rightarrow> string option"
  and ToString_children :: "(string \<times> XmlElement) list \<Rightarrow> string \<Rightarrow> string option" where
  "ToString_into (XmlElement n m v es as) buffer =
     Option.bind (ToString_children es (ToStartElementString (XmlElement n m v es as) buffer))
       (\<lambda>b. Option.bind (Escape v)
          (\<lambda>x. Some (ToEndElementString (XmlElement n m v es as) (b @ x))))"
| "ToString_children [] buffer = Some buffer"
| "ToString_children (i # is) buffer =
     Option.bind (ToString_into (snd i) buffer) (\<lambda>b. ToString_children is b)"

definition ToString :: "XmlElement \<Rightarrow> string option" where
  "ToString e = ToString_into e []"

text \<open>\<^verbatim>\<open>Xml::UnitTest\<close>: the document of the test, built call by call.\<close>

definition UnitTest_xml :: XmlElement where
  "UnitTest_xml =
     (let xml0 = XmlElement [] ''root'' [] [] [];
          xml1 = Attribute_Value (Attribute xml0 [] ''attr1'') ''12'';
          xml2 = Element_Value (Element xml1 [] ''test'') ''abc'';
          xml3 = Element_Value (Element xml2 [] ''test'') ''def'';
          xml4 = Element_Value (Add xml3 [] ''test'') ''ghi''
      in xml4)"

section \<open>More of \<^verbatim>\<open>std::string\<close> and String.hpp\<close>

text \<open>The exceptions that the modelled code throws.\<close>

datatype error =
    UndefinedTriggerException
  | MultipleTriggerException
  | InvalidFormatException
  | SendException
  | OutOfRangeException


text \<open>
  \<^verbatim>\<open>s.find(pattern, pos)\<close>: the least index at or after \<open>pos\<close> where the pattern
  starts, \<open>None\<close> for \<^verbatim>\<open>npos\<close>. \<^verbatim>\<open>find_first_of\<close> and \<^verbatim>\<open>find_first_not_of\<close> look for
  the first character that is, or is not, among the given ones. \<^verbatim>\<open>erase(0, n)\<close> is
  \<^term>\<open>drop n\<close>, and \<^verbatim>\<open>substr(pos, n)\<close> is \<^term>\<open>take n \<circ> drop pos\<close> where \<open>pos\<close> is
  within the string.
\<close>

fun find_first :: "string \<Rightarrow> string \<Rightarrow> nat option" where
  "find_first pat [] = (if pat = [] then Some 0 else None)"
| "find_first pat (c # cs) =
     (if take (length pat) (c # cs) = pat then Some 0 else map_option Suc (find_first pat cs))"

definition find_str :: "string \<Rightarrow> nat \<Rightarrow> string \<Rightarrow> nat option" where
  "find_str pat pos s =
     (if length s < pos then None else map_option (\<lambda>i. i + pos) (find_first pat (drop pos s)))"

fun find_first_of :: "string \<Rightarrow> string \<Rightarrow> nat option" where
  "find_first_of chars [] = None"
| "find_first_of chars (c # cs) =
     (if c \<in> set chars then Some 0 else map_option Suc (find_first_of chars cs))"

fun find_first_not_of :: "string \<Rightarrow> string \<Rightarrow> nat option" where
  "find_first_not_of chars [] = None"
| "find_first_not_of chars (c # cs) =
     (if c \<notin> set chars then Some 0 else map_option Suc (find_first_not_of chars cs))"

definition CRLF :: string where
  "CRLF = [CHR 0x0D, CHR 0x0A]"

text \<open>
  \<^verbatim>\<open>String::Split(value, delimiter)\<close> reads the items with \<^verbatim>\<open>std::getline\<close>: the
  pieces between the delimiters, without a last empty piece, and nothing at all for
  the empty string.
\<close>

fun Split_items :: "char \<Rightarrow> string \<Rightarrow> string \<Rightarrow> string list" where
  "Split_items d item [] = (if item = [] then [] else [item])"
| "Split_items d item (c # cs) =
     (if c = d then item # Split_items d [] cs else Split_items d (item @ [c]) cs)"

definition Split :: "string \<Rightarrow> char \<Rightarrow> string list" where
  "Split v d = Split_items d [] v"

text \<open>
  \<^verbatim>\<open>String::Convert<T>(value, base)\<close> extracts a number from a stream over the value:
  white space is skipped, then an optional sign and the digits of the base are read
  (for base 16 after an optional \<^verbatim>\<open>0x\<close>), and what follows is left unread. Without a
  digit, or with a number outside the type, the extraction fails and the function
  throws. For the unsigned \<^verbatim>\<open>size_t\<close> a negative number is taken modulo \<open>2 ^ 64\<close>.
\<close>

definition isspace :: "char \<Rightarrow> bool" where
  "isspace c = (c \<in> set [CHR '' '', CHR 0x09, CHR 0x0A, CHR 0x0B, CHR 0x0C, CHR 0x0D])"

definition digit_value :: "char \<Rightarrow> nat option" where
  "digit_value c =
     map_of
       [(CHR ''0'', 0), (CHR ''1'', 1), (CHR ''2'', 2), (CHR ''3'', 3),
        (CHR ''4'', 4), (CHR ''5'', 5), (CHR ''6'', 6), (CHR ''7'', 7),
        (CHR ''8'', 8), (CHR ''9'', 9), (CHR ''a'', 10), (CHR ''b'', 11),
        (CHR ''c'', 12), (CHR ''d'', 13), (CHR ''e'', 14), (CHR ''f'', 15),
        (CHR ''A'', 10), (CHR ''B'', 11), (CHR ''C'', 12), (CHR ''D'', 13),
        (CHR ''E'', 14), (CHR ''F'', 15)] c"

definition is_digit :: "nat \<Rightarrow> char \<Rightarrow> bool" where
  "is_digit base c = (case digit_value c of None \<Rightarrow> False | Some v \<Rightarrow> v < base)"

definition digits_value :: "nat \<Rightarrow> string \<Rightarrow> nat" where
  "digits_value base ds = foldl (\<lambda>n c. n * base + (case digit_value c of None \<Rightarrow> 0 | Some v \<Rightarrow> v)) 0 ds"

definition strip_sign :: "string \<Rightarrow> bool \<times> string" where
  "strip_sign s =
     (case s of
        c # cs \<Rightarrow> if c = CHR ''-'' then (True, cs) else if c = CHR ''+'' then (False, cs)
                  else (False, s)
      | [] \<Rightarrow> (False, s))"

definition strip_prefix :: "nat \<Rightarrow> string \<Rightarrow> string" where
  "strip_prefix base s =
     (case s of
        a # b # c # cs \<Rightarrow>
          if base = 16 \<and> a = CHR ''0'' \<and> (b = CHR ''x'' \<or> b = CHR ''X'') \<and> is_digit 16 c
          then c # cs else s
      | _ \<Rightarrow> s)"

definition extract_number :: "nat \<Rightarrow> string \<Rightarrow> (bool \<times> nat) option" where
  "extract_number base v =
     (case strip_sign (dropWhile isspace v) of (negative, s) \<Rightarrow>
        (case takeWhile (is_digit base) (strip_prefix base s) of
           [] \<Rightarrow> None
         | ds \<Rightarrow> Some (negative, digits_value base ds)))"

definition Convert_size_t :: "nat \<Rightarrow> string \<Rightarrow> error + nat" where
  "Convert_size_t base v =
     (case extract_number base v of
        None \<Rightarrow> Inl InvalidFormatException
      | Some (negative, n) \<Rightarrow>
          if 2 ^ 64 \<le> n then Inl InvalidFormatException
          else Inr (if negative then (2 ^ 64 - n) mod 2 ^ 64 else n))"

definition Convert_int :: "string \<Rightarrow> error + int" where
  "Convert_int v =
     (case extract_number 10 v of
        None \<Rightarrow> Inl InvalidFormatException
      | Some (negative, n) \<Rightarrow>
          if negative then (if 2 ^ 31 < n then Inl InvalidFormatException else Inr (- int n))
          else (if 2 ^ 31 \<le> n then Inl InvalidFormatException else Inr (int n)))"

text \<open>
  \<^verbatim>\<open>String::Format("%x\r\n", n)\<close>: the number in lower-case hexadecimal, as
  \<^verbatim>\<open>%x\<close> prints the \<^verbatim>\<open>unsigned int\<close> it is handed, then the line end.
\<close>

fun to_hex :: "nat \<Rightarrow> string" where
  "to_hex n =
     (if n < 16 then [''0123456789abcdef'' ! n]
      else to_hex (n div 16) @ [''0123456789abcdef'' ! (n mod 16)])"

declare to_hex.simps [simp del]

definition Format_x_CRLF :: "nat \<Rightarrow> string" where
  "Format_x_CRLF n = to_hex (n mod 2 ^ 32) @ CRLF"

text \<open>Subtraction of two \<^verbatim>\<open>size_t\<close>, which wraps around.\<close>

definition size_t_minus :: "nat \<Rightarrow> nat \<Rightarrow> nat" where
  "size_t_minus a b = (if b \<le> a then a - b else 2 ^ 64 - (b - a))"

definition substr :: "string \<Rightarrow> nat \<Rightarrow> nat \<Rightarrow> error + string" where
  "substr s pos n = (if length s < pos then Inl OutOfRangeException else Inr (take n (drop pos s)))"

section \<open>state/StateMachine.hpp\<close>

text \<open>
  The delegates of a configuration are closures over the memory of the program.
  That memory is the type \<open>'w\<close>: a predicate reads it, an entry or exit handler
  changes it. \<^verbatim>\<open>Permit\<close> is given a callable predicate (\<^verbatim>\<open>DefaultPredicate\<close> when
  none is passed); the handlers are \<^verbatim>\<open>Delegate<void()>\<close>, which may be unassigned,
  and invoking an unassigned one does nothing. Handlers are taken to return
  normally.
\<close>

record ('s, 'w) TriggerConfiguration =
  destination :: 's
  predicate :: "'w \<Rightarrow> bool"

text \<open>
  \<^verbatim>\<open>_superStates\<close> is a \<^verbatim>\<open>std::set\<close>, kept as the list of its members in iteration
  order; \<^verbatim>\<open>_triggerConfigurations\<close> is a \<^verbatim>\<open>std::multimap\<close>, kept as its entries in
  insertion order, so that the entries of one trigger are in the order of
  \<^verbatim>\<open>equal_range\<close>. The \<^verbatim>\<open>_lookup\<close> delegate of every configuration of a machine is
  that machine's \<^verbatim>\<open>Configure\<close>; the model passes the configurations instead.
\<close>

record ('s, 't, 'w) StateConfiguration =
  superStates :: "'s list"
  triggerConfigurations :: "('t \<times> ('s, 'w) TriggerConfiguration) list"
  stateEntered :: "('w \<Rightarrow> 'w) option"
  stateExited :: "('w \<Rightarrow> 'w) option"

type_synonym ('s, 't, 'w) StateConfigurations = "'s \<rightharpoonup> ('s, 't, 'w) StateConfiguration"

definition empty_configuration :: "('s, 't, 'w) StateConfiguration" where
  "empty_configuration =
     \<lparr>superStates = [], triggerConfigurations = [], stateEntered = None, stateExited = None\<rparr>"

definition DefaultPredicate :: "'w \<Rightarrow> bool" where
  "DefaultPredicate w = True"

definition Permit ::
  "'t \<Rightarrow> 's \<Rightarrow> ('w \<Rightarrow> bool) \<Rightarrow> ('s, 't, 'w) StateConfiguration \<Rightarrow> ('s, 't, 'w) StateConfiguration" where
  "Permit trigger dest p c =
     c\<lparr>triggerConfigurations :=
         triggerConfigurations c @ [(trigger, \<lparr>destination = dest, predicate = p\<rparr>)]\<rparr>"

definition SubstateOf ::
  "'s::linorder \<Rightarrow> ('s, 't, 'w) StateConfiguration \<Rightarrow> ('s, 't, 'w) StateConfiguration" where
  "SubstateOf s c =
     (if s \<in> set (superStates c) then c else c\<lparr>superStates := insort s (superStates c)\<rparr>)"

definition OnEntry ::
  "('w \<Rightarrow> 'w) \<Rightarrow> ('s, 't, 'w) StateConfiguration \<Rightarrow> ('s, 't, 'w) StateConfiguration" where
  "OnEntry handler c = c\<lparr>stateEntered := Some handler\<rparr>"

definition OnExit ::
  "('w \<Rightarrow> 'w) \<Rightarrow> ('s, 't, 'w) StateConfiguration \<Rightarrow> ('s, 't, 'w) StateConfiguration" where
  "OnExit handler c = c\<lparr>stateExited := Some handler\<rparr>"

definition invoke :: "('w \<Rightarrow> 'w) option \<Rightarrow> 'w \<Rightarrow> 'w" where
  "invoke h w = (case h of None \<Rightarrow> w | Some f \<Rightarrow> f w)"

definition OnStateEntered :: "('s, 't, 'w) StateConfiguration \<Rightarrow> 'w \<Rightarrow> 'w" where
  "OnStateEntered c w = invoke (stateEntered c) w"

definition OnStateExited :: "('s, 't, 'w) StateConfiguration \<Rightarrow> 'w \<Rightarrow> 'w" where
  "OnStateExited c w = invoke (stateExited c) w"

text \<open>
  \<^verbatim>\<open>Configure(state)\<close> enters an empty configuration for a state that has none, and
  returns the configuration of the state.
\<close>

definition Configure ::
  "('s, 't, 'w) StateConfigurations \<Rightarrow> 's \<Rightarrow>
     ('s, 't, 'w) StateConfigurations \<times> ('s, 't, 'w) StateConfiguration" where
  "Configure cs s =
     (case cs s of
        None \<Rightarrow> (cs(s \<mapsto> empty_configuration), empty_configuration)
      | Some c \<Rightarrow> (cs, c))"

definition CanTransition :: "'w \<Rightarrow> ('s, 'w) TriggerConfiguration \<Rightarrow> bool" where
  "CanTransition w i = predicate i w"

definition equal_range ::
  "'t \<Rightarrow> ('s, 't, 'w) StateConfiguration \<Rightarrow> ('s, 'w) TriggerConfiguration list" where
  "equal_range trigger c = map snd (filter (\<lambda>i. fst i = trigger) (triggerConfigurations c))"

text \<open>
  \<^verbatim>\<open>StateConfiguration::Transition\<close>. The first loop runs over the transitions of the
  trigger; \<open>result\<close> is the transition found so far. The second loop asks the
  super-states in turn, through \<^verbatim>\<open>_lookup\<close>; \<open>result\<close> there is the destination
  that a super-state has assigned. The value is \<open>Inl\<close> of the exception thrown, or
  \<open>Inr None\<close> for \<^verbatim>\<open>false\<close> (destination untouched), or \<open>Inr (Some d)\<close> for \<^verbatim>\<open>true\<close>
  with the destination \<open>d\<close>, together with the configurations as \<^verbatim>\<open>_lookup\<close> has
  left them. The recursion through the super-states need not end: \<open>None\<close> is a call
  that does not return.
\<close>

fun own_loop ::
  "'w \<Rightarrow> ('s, 'w) TriggerConfiguration list \<Rightarrow> ('s, 'w) TriggerConfiguration option \<Rightarrow>
     error + ('s, 'w) TriggerConfiguration option" where
  "own_loop w [] result = Inr result"
| "own_loop w (i # rest) result =
     (if CanTransition w i
      then (case result of
              Some _ \<Rightarrow> Inl MultipleTriggerException
            | None \<Rightarrow> own_loop w rest (Some i))
      else own_loop w rest result)"

fun super_loop ::
  "(('s, 't, 'w) StateConfigurations \<Rightarrow> ('s, 't, 'w) StateConfiguration \<Rightarrow>
      ((error + 's option) \<times> ('s, 't, 'w) StateConfigurations) option) \<Rightarrow>
   's list \<Rightarrow> 's option \<Rightarrow> ('s, 't, 'w) StateConfigurations \<Rightarrow>
     ((error + 's option) \<times> ('s, 't, 'w) StateConfigurations) option" where
  "super_loop f [] result cs = Some (Inr result, cs)"
| "super_loop f (i # rest) result cs =
     (case Configure cs i of (cs1, c) \<Rightarrow>
        Option.bind (f cs1 c) (\<lambda>x.
          case x of
            (Inl e, cs2) \<Rightarrow> Some (Inl e, cs2)
          | (Inr None, cs2) \<Rightarrow> super_loop f rest result cs2
          | (Inr (Some d), cs2) \<Rightarrow>
             (case result of
                Some _ \<Rightarrow> Some (Inl MultipleTriggerException, cs2)
              | None \<Rightarrow> super_loop f rest (Some d) cs2)))"

lemma super_loop_mono [partial_function_mono]:
  assumes F: "\<And>cs c. mono_option (\<lambda>f. F f cs c)"
  shows "mono_option (\<lambda>f. super_loop (F f) ps r cs)"
proof (induction ps arbitrary: r cs)
  case Nil
  show ?case by (simp add: option.const_mono)
next
  case (Cons p ps)
  obtain cs1 c where C: "Configure cs p = (cs1, c)" by (cases "Configure cs p")
  have K: "mono_option (\<lambda>f. case x of
            (Inl e, cs2) \<Rightarrow> Some (Inl e, cs2)
          | (Inr None, cs2) \<Rightarrow> super_loop (F f) ps r cs2
          | (Inr (Some d), cs2) \<Rightarrow>
             (case r of
                Some _ \<Rightarrow> Some (Inl MultipleTriggerException, cs2)
              | None \<Rightarrow> super_loop (F f) ps (Some d) cs2))" for x
  proof (cases x)
    case (Pair a cs2)
    show ?thesis
    proof (cases a)
      case (Inl e)
      with Pair show ?thesis by (simp add: option.const_mono)
    next
      case (Inr o1)
      with Pair show ?thesis
        by (cases o1; cases r) (simp_all add: option.const_mono Cons)
    qed
  qed
  show ?case
    unfolding super_loop.simps C prod.case
    by (rule bind_mono [OF F K])
qed

partial_function (option) Transition ::
  "('s, 't, 'w) StateConfigurations \<Rightarrow> ('s, 't, 'w) StateConfiguration \<Rightarrow> 't \<Rightarrow> 'w \<Rightarrow>
     ((error + 's option) \<times> ('s, 't, 'w) StateConfigurations) option" where
  "Transition cs c trigger w =
     (case own_loop w (equal_range trigger c) None of
        Inl e \<Rightarrow> Some (Inl e, cs)
      | Inr (Some i) \<Rightarrow> Some (Inr (Some (destination i)), cs)
      | Inr None \<Rightarrow>
          super_loop (\<lambda>cs1 c1. Transition cs1 c1 trigger w) (superStates c) None cs)"

text \<open>
  The machine. With the first constructor the state is the field \<^verbatim>\<open>_state\<close>, with
  the second it is wherever the accessor and the mutator keep it: in both cases a
  part of the memory \<open>'w\<close>, read by \<open>stateAccessor\<close> and written by \<open>stateMutator\<close>.
\<close>

record ('s, 't, 'w) StateMachine =
  stateAccessor :: "'w \<Rightarrow> 's"
  stateMutator :: "'s \<Rightarrow> 'w \<Rightarrow> 'w"
  stateConfigurations :: "('s, 't, 'w) StateConfigurations"

definition CanFire ::
  "('s, 't, 'w) StateMachine \<Rightarrow> 't \<Rightarrow> 'w \<Rightarrow>
     ((error + 's option) \<times> ('s, 't, 'w) StateConfigurations) option" where
  "CanFire m trigger w =
     (case stateConfigurations m (stateAccessor m w) of
        None \<Rightarrow> Some (Inr None, stateConfigurations m)
      | Some c \<Rightarrow> Transition (stateConfigurations m) c trigger w)"

definition Fire ::
  "('s, 't, 'w) StateMachine \<Rightarrow> 't \<Rightarrow> 'w \<Rightarrow>
     ((error + unit) \<times> ('s, 't, 'w) StateMachine \<times> 'w) option" where
  "Fire m trigger w =
     Option.bind (CanFire m trigger w) (\<lambda>x.
       case x of
         (Inl e, cs) \<Rightarrow> Some (Inl e, m\<lparr>stateConfigurations := cs\<rparr>, w)
       | (Inr None, cs) \<Rightarrow>
           Some (Inl UndefinedTriggerException, m\<lparr>stateConfigurations := cs\<rparr>, w)
       | (Inr (Some dest), cs) \<Rightarrow>
           (case Configure cs (stateAccessor m w) of (cs1, c1) \<Rightarrow>
              let w1 = OnStateExited c1 w;
                  w2 = stateMutator m dest w1
              in (case Configure cs1 dest of (cs2, c2) \<Rightarrow>
                    Some (Inr (), m\<lparr>stateConfigurations := cs2\<rparr>, OnStateEntered c2 w2))))"

text \<open>
  Notions used to state the properties. \<open>satisfied\<close> are the transitions that a
  configuration declares for a trigger and whose guard holds; \<open>lookup\<close> is the
  configuration that \<^verbatim>\<open>Configure\<close> returns for a state; \<open>answer\<close> is what a state
  answers when it is asked, as a super-state, for a transition; \<open>is_superstate\<close>
  relates a state to each of its super-states.
\<close>

definition satisfied ::
  "'w \<Rightarrow> 't \<Rightarrow> ('s, 't, 'w) StateConfiguration \<Rightarrow> ('s, 'w) TriggerConfiguration list" where
  "satisfied w trigger c = filter (CanTransition w) (equal_range trigger c)"

definition lookup :: "('s, 't, 'w) StateConfigurations \<Rightarrow> 's \<Rightarrow> ('s, 't, 'w) StateConfiguration" where
  "lookup cs s = snd (Configure cs s)"

definition answer ::
  "('s, 't, 'w) StateConfigurations \<Rightarrow> 't \<Rightarrow> 'w \<Rightarrow> 's \<Rightarrow> (error + 's option) option" where
  "answer cs trigger w s = map_option fst (Transition cs (lookup cs s) trigger w)"

definition is_superstate :: "('s, 't, 'w) StateConfigurations \<Rightarrow> 's \<Rightarrow> 's \<Rightarrow> bool" where
  "is_superstate cs s p = (p \<in> set (superStates (lookup cs s)))"

definition same_lookups ::
  "('s, 't, 'w) StateConfigurations \<Rightarrow> ('s, 't, 'w) StateConfigurations \<Rightarrow> bool" where
  "same_lookups a b = (\<forall>s. lookup a s = lookup b s)"

definition provides :: "('s, 't, 'w) StateConfigurations \<Rightarrow> 't \<Rightarrow> 'w \<Rightarrow> 's \<Rightarrow> bool" where
  "provides cs trigger w s =
     (case answer cs trigger w s of Some (Inr (Some _)) \<Rightarrow> True | _ \<Rightarrow> False)"

definition declines :: "('s, 't, 'w) StateConfigurations \<Rightarrow> 't \<Rightarrow> 'w \<Rightarrow> 's \<Rightarrow> bool" where
  "declines cs trigger w s = (answer cs trigger w s = Some (Inr None))"

text \<open>
  What the second loop makes of the answers of the super-states, taken in turn.
\<close>

fun combine :: "'s option \<Rightarrow> (error + 's option) option list \<Rightarrow> (error + 's option) option" where
  "combine result [] = Some (Inr result)"
| "combine result (None # rs) = None"
| "combine result (Some (Inl e) # rs) = Some (Inl e)"
| "combine result (Some (Inr None) # rs) = combine result rs"
| "combine result (Some (Inr (Some d)) # rs) =
     (case result of Some _ \<Rightarrow> Some (Inl MultipleTriggerException) | None \<Rightarrow> combine (Some d) rs)"

text \<open>
  Two machines whose state is the whole memory. In the first, state 0 is configured
  as a sub-state of itself and nothing else is configured. In the second, state 0 has
  the super-states 1, 2 and 3; state 1 is a sub-state of itself, and states 2 and 3
  each permit the trigger 0.
\<close>

definition cyclic_machine :: "(nat, nat, nat) StateMachine" where
  "cyclic_machine =
     \<lparr>stateAccessor = (\<lambda>w. w), stateMutator = (\<lambda>s w. s),
      stateConfigurations = [0 \<mapsto> SubstateOf 0 empty_configuration]\<rparr>"

definition cyclic_super_machine :: "(nat, nat, nat) StateMachine" where
  "cyclic_super_machine =
     \<lparr>stateAccessor = (\<lambda>w. w), stateMutator = (\<lambda>s w. s),
      stateConfigurations =
        [0 \<mapsto> SubstateOf 3 (SubstateOf 2 (SubstateOf 1 empty_configuration)),
         1 \<mapsto> SubstateOf 1 empty_configuration,
         2 \<mapsto> Permit 0 4 DefaultPredicate empty_configuration,
         3 \<mapsto> Permit 0 5 DefaultPredicate empty_configuration]\<rparr>"

text \<open>
  A machine with a log: the memory is the state and the list of the handlers that
  have run. State 1 is a sub-state of state 2; state 1 permits trigger 0 to state 3,
  state 2 permits trigger 0 to state 4 and trigger 1 to state 3, twice trigger 2, and
  trigger 3 under a guard that does not hold.
\<close>

definition logged_machine :: "(nat, nat, nat \<times> string list) StateMachine" where
  "logged_machine =
     \<lparr>stateAccessor = fst, stateMutator = (\<lambda>s w. (s, snd w @ [''set''])),
      stateConfigurations =
        [1 \<mapsto> (OnExit (\<lambda>w. (fst w, snd w @ [''exit 1''])) \<circ> SubstateOf 2 \<circ>
               Permit 0 3 DefaultPredicate) empty_configuration,
         2 \<mapsto> (OnExit (\<lambda>w. (fst w, snd w @ [''exit 2''])) \<circ>
               Permit 3 4 (\<lambda>w. False) \<circ>
               Permit 2 4 DefaultPredicate \<circ> Permit 2 3 DefaultPredicate \<circ>
               Permit 1 3 DefaultPredicate \<circ> Permit 0 4 DefaultPredicate) empty_configuration,
         3 \<mapsto> OnEntry (\<lambda>w. (fst w, snd w @ [''enter 3''])) empty_configuration,
         5 \<mapsto> (SubstateOf 2 \<circ> SubstateOf 1) empty_configuration]\<rparr>"

section \<open>The machines of the components\<close>

text \<open>
  \<^verbatim>\<open>TcpClient\<close>, \<^verbatim>\<open>HttpClient\<close> and \<^verbatim>\<open>Xml::ProgressiveParser\<close> each own a
  \<^verbatim>\<open>StateMachine\<close>, configured in the constructor and never afterwards. Their entry
  handlers are member functions, which work on the fields of the object and fire
  the next trigger as their last statement. A handler is therefore a function from
  the object to the object and what it does last: it returns, it fires a trigger, or
  it throws. \<open>resolve\<close> is \<^verbatim>\<open>CanFire\<close> on the configurations of the component (their
  predicates are all \<^verbatim>\<open>DefaultPredicate\<close>, over a memory that holds nothing); every
  state named in them is configured, so that \<^verbatim>\<open>Configure\<close> enters nothing new.
\<close>

datatype 't step = Done | Fire_next 't | Throw error

definition resolve ::
  "('s, 't, unit) StateConfigurations \<Rightarrow> 's \<Rightarrow> 't \<Rightarrow> (error + 's option) option" where
  "resolve cs s trigger =
     map_option fst
       (CanFire \<lparr>stateAccessor = (\<lambda>w. s), stateMutator = (\<lambda>d w. w), stateConfigurations = cs\<rparr>
          trigger ())"

section \<open>net/TcpClient.hpp\<close>

datatype tcp_State =
    Tcp_State_Idle
  | Tcp_State_Connecting
  | Tcp_State_Connected
  | Tcp_State_Sending
  | Tcp_State_Disconnected

datatype tcp_Trigger =
    Tcp_Trigger_Connect
  | Tcp_Trigger_Connected
  | Tcp_Trigger_Send
  | Tcp_Trigger_Timeout
  | Tcp_Trigger_Disconnected

text \<open>The order of the enumeration, which is the order of \<^verbatim>\<open>std::set<State>\<close>.\<close>

fun tcp_State_value :: "tcp_State \<Rightarrow> nat" where
  "tcp_State_value Tcp_State_Idle = 0"
| "tcp_State_value Tcp_State_Connecting = 1"
| "tcp_State_value Tcp_State_Connected = 2"
| "tcp_State_value Tcp_State_Sending = 3"
| "tcp_State_value Tcp_State_Disconnected = 4"

instantiation tcp_State :: linorder
begin

definition less_eq_tcp_State :: "tcp_State \<Rightarrow> tcp_State \<Rightarrow> bool" where
  "less_eq_tcp_State a b = (tcp_State_value a \<le> tcp_State_value b)"

definition less_tcp_State :: "tcp_State \<Rightarrow> tcp_State \<Rightarrow> bool" where
  "less_tcp_State a b = (tcp_State_value a < tcp_State_value b)"

instance
proof
  fix x y :: tcp_State
  show "x \<le> y \<Longrightarrow> y \<le> x \<Longrightarrow> x = y"
    unfolding less_eq_tcp_State_def by (cases x; cases y) simp_all
qed (auto simp: less_eq_tcp_State_def less_tcp_State_def)

end

datatype tcp_event = ClientConnected | ClientDisconnected | Tcp_DataReceived string

datatype tcp_callback = Callback_Connecting_OnEntry | Callback_Connected_Update

datatype SelectMode = SelectMode_Read | SelectMode_Write | SelectMode_Error

text \<open>
  The socket of the operating system, as far as the client sees it: what \<^verbatim>\<open>Poll\<close>
  answers, the bytes that \<^verbatim>\<open>sock_send\<close> has taken so far (\<open>wire\<close>), and for each
  coming call of \<^verbatim>\<open>sock_send\<close> what it will do: take at most so many bytes, or fail
  (\<open>None\<close>, a \<^verbatim>\<open>SendException\<close>); once that list is used up it takes all it is given.
\<close>

record Socket =
  readiness :: "SelectMode \<Rightarrow> bool"
  wire :: string
  window :: "nat option list"

definition Socket_Send :: "string \<Rightarrow> Socket \<Rightarrow> (error + nat) \<times> Socket" where
  "Socket_Send v s =
     (case window s of
        [] \<Rightarrow> (Inr (length v), s\<lparr>wire := wire s @ v\<rparr>)
      | None # ns \<Rightarrow> (Inl SendException, s\<lparr>window := ns\<rparr>)
      | Some n # ns \<Rightarrow> (Inr (min n (length v)), s\<lparr>wire := wire s @ take n v, window := ns\<rparr>))"

text \<open>
  The client: its state, its fields, its socket, the events it has raised and the
  callbacks it has handed to \<^verbatim>\<open>Thread::SetTimeout\<close> (with the delay in milliseconds).
\<close>

record TcpClient =
  tcp_state :: tcp_State
  poll :: int
  sendBuffer :: string
  socket :: Socket
  tcp_raised :: "tcp_event list"
  futureEvents :: "(int \<times> tcp_callback) list"

definition tcp_configurations :: "(tcp_State, tcp_Trigger, unit) StateConfigurations" where
  "tcp_configurations =
     [Tcp_State_Idle \<mapsto>
        (Permit Tcp_Trigger_Connect Tcp_State_Connecting DefaultPredicate \<circ>
         Permit Tcp_Trigger_Connected Tcp_State_Connected DefaultPredicate) empty_configuration,
      Tcp_State_Connecting \<mapsto>
        (Permit Tcp_Trigger_Timeout Tcp_State_Disconnected DefaultPredicate \<circ>
         Permit Tcp_Trigger_Disconnected Tcp_State_Disconnected DefaultPredicate \<circ>
         Permit Tcp_Trigger_Connected Tcp_State_Connected DefaultPredicate) empty_configuration,
      Tcp_State_Connected \<mapsto>
        (Permit Tcp_Trigger_Disconnected Tcp_State_Disconnected DefaultPredicate \<circ>
         Permit Tcp_Trigger_Send Tcp_State_Sending DefaultPredicate) empty_configuration,
      Tcp_State_Sending \<mapsto> SubstateOf Tcp_State_Connected empty_configuration,
      Tcp_State_Disconnected \<mapsto> empty_configuration]"

definition Connecting_OnEntry :: "TcpClient \<Rightarrow> TcpClient \<times> tcp_Trigger step" where
  "Connecting_OnEntry c =
     (if readiness (socket c) SelectMode_Write then (c, Fire_next Tcp_Trigger_Connected)
      else if readiness (socket c) SelectMode_Error then (c, Fire_next Tcp_Trigger_Disconnected)
      else (c\<lparr>futureEvents := futureEvents c @ [(poll c, Callback_Connecting_OnEntry)]\<rparr>, Done))"

definition Connected_OnEntry :: "TcpClient \<Rightarrow> TcpClient \<times> tcp_Trigger step" where
  "Connected_OnEntry c =
     (c\<lparr>sendBuffer := [], tcp_raised := tcp_raised c @ [ClientConnected],
        futureEvents := futureEvents c @ [(0, Callback_Connected_Update)]\<rparr>, Done)"

definition Sending_OnEntry :: "TcpClient \<Rightarrow> TcpClient \<times> tcp_Trigger step" where
  "Sending_OnEntry c =
     (case Socket_Send (sendBuffer c) (socket c) of
        (Inl e, s) \<Rightarrow> (c\<lparr>socket := s\<rparr>, Throw e)
      | (Inr count, s) \<Rightarrow>
          (c\<lparr>socket := s, sendBuffer := drop count (sendBuffer c)\<rparr>,
           if drop count (sendBuffer c) \<noteq> [] then Fire_next Tcp_Trigger_Send else Done))"

definition Disconnected_OnEntry :: "TcpClient \<Rightarrow> TcpClient \<times> tcp_Trigger step" where
  "Disconnected_OnEntry c = (c\<lparr>tcp_raised := tcp_raised c @ [ClientDisconnected]\<rparr>, Done)"

fun tcp_OnStateEntered :: "tcp_State \<Rightarrow> TcpClient \<Rightarrow> TcpClient \<times> tcp_Trigger step" where
  "tcp_OnStateEntered Tcp_State_Idle c = (c, Done)"
| "tcp_OnStateEntered Tcp_State_Connecting c = Connecting_OnEntry c"
| "tcp_OnStateEntered Tcp_State_Connected c = Connected_OnEntry c"
| "tcp_OnStateEntered Tcp_State_Sending c = Sending_OnEntry c"
| "tcp_OnStateEntered Tcp_State_Disconnected c = Disconnected_OnEntry c"

text \<open>
  \<^verbatim>\<open>_stateMachine.Fire(trigger)\<close> on the client. No state has an exit handler. The
  handler of the state entered may fire again: the call returns when a handler
  returns without firing, and \<open>None\<close> is a call that does not return.
\<close>

partial_function (option) tcp_Fire ::
  "tcp_Trigger \<Rightarrow> TcpClient \<Rightarrow> ((error + unit) \<times> TcpClient) option" where
  "tcp_Fire trigger c =
     (case resolve tcp_configurations (tcp_state c) trigger of
        None \<Rightarrow> None
      | Some (Inl e) \<Rightarrow> Some (Inl e, c)
      | Some (Inr None) \<Rightarrow> Some (Inl UndefinedTriggerException, c)
      | Some (Inr (Some dest)) \<Rightarrow>
          (case tcp_OnStateEntered dest (c\<lparr>tcp_state := dest\<rparr>) of
             (c', Done) \<Rightarrow> Some (Inr (), c')
           | (c', Throw e) \<Rightarrow> Some (Inl e, c')
           | (c', Fire_next t) \<Rightarrow> tcp_Fire t c'))"

definition TcpClient_Send :: "string \<Rightarrow> TcpClient \<Rightarrow> ((error + unit) \<times> TcpClient) option" where
  "TcpClient_Send v c = tcp_Fire Tcp_Trigger_Send (c\<lparr>sendBuffer := sendBuffer c @ v\<rparr>)"

text \<open>The destructor \<^verbatim>\<open>~TcpClient\<close>.\<close>

definition TcpClient_destroy :: "TcpClient \<Rightarrow> ((error + unit) \<times> TcpClient) option" where
  "TcpClient_destroy c =
     (if tcp_state c = Tcp_State_Connected \<or> tcp_state c = Tcp_State_Connecting
      then tcp_Fire Tcp_Trigger_Disconnected c
      else Some (Inr (), c))"

text \<open>A client in a given state, with nothing sent and nothing raised.\<close>

definition a_client :: "tcp_State \<Rightarrow> TcpClient" where
  "a_client s =
     \<lparr>tcp_state = s, poll = 1, sendBuffer = [],
      socket = \<lparr>readiness = (\<lambda>m. False), wire = [], window = []\<rparr>,
      tcp_raised = [], futureEvents = []\<rparr>"


section \<open>http/HttpClient.hpp\<close>

datatype http_State =
    Http_State_WaitForConnection
  | Http_State_Connected
  | Http_State_RequestActionLine
  | Http_State_RequestHeaderLine
  | Http_State_RequestLastHeader
  | Http_State_RequestChunk
  | Http_State_ResponseActionLine
  | Http_State_ResponseHeaderLine
  | Http_State_ResponseHeaderLineAndTransferEncodingChunked
  | Http_State_ResponseHeaderLineAndContentLength
  | Http_State_ResponseHeaderLineConnectionClose
  | Http_State_ResponseHeaderLineAndContentLengthAndConnectionClose
  | Http_State_ResponseHeaderLineAndTransferEncodingChunkedAndConnectionClose
  | Http_State_ResponseContent
  | Http_State_ResponseContentUntilClosed
  | Http_State_ResponseChunkSize
  | Http_State_ResponseChunkSizeAndConnectionClose
  | Http_State_ResponseChunk
  | Http_State_ResponseChunkAndConnectionClose
  | Http_State_EndOfResponseContentUntilClosed
  | Http_State_EndOfResponse
  | Http_State_WaitForDisconnect

datatype http_Trigger =
    Http_Trigger_Connected
  | Http_Trigger_RequestBegin
  | Http_Trigger_RequestHeader
  | Http_Trigger_RequestChunk
  | Http_Trigger_Continue
  | Http_Trigger_Break
  | Http_Trigger_RequestEnd
  | Http_Trigger_TransferEncodingChunked
  | Http_Trigger_ContentLength
  | Http_Trigger_ConnectionClose
  | Http_Trigger_EndOfChunks
  | Http_Trigger_Disconnect

datatype http_event =
    ResponseStarted string int string
  | HeaderReceived string string
  | ContentReceived string
  | ResponseEnded

text \<open>
  The client: the \<^verbatim>\<open>TcpClient\<close> it derives from, the state of its own machine, its
  fields, and the events it has raised.
\<close>

record HttpClient =
  tcp :: TcpClient
  http_state :: http_State
  buffer :: string
  contentLength :: nat
  http_raised :: "http_event list"

text \<open>
  The calls of \<^verbatim>\<open>Configure\<close> in the constructor, each with its \<^verbatim>\<open>Permit\<close>s in the
  order of the source.
\<close>

definition configured ::
  "(('s, 't, 'w) StateConfiguration \<Rightarrow> ('s, 't, 'w) StateConfiguration) list \<Rightarrow>
     ('s, 't, 'w) StateConfiguration" where
  "configured calls = foldl (\<lambda>c call. call c) empty_configuration calls"

definition permit :: "'t \<Rightarrow> 's \<Rightarrow> ('s, 't, unit) StateConfiguration \<Rightarrow> ('s, 't, unit) StateConfiguration" where
  "permit trigger dest = Permit trigger dest DefaultPredicate"

definition http_configurations :: "(http_State, http_Trigger, unit) StateConfigurations" where
  "http_configurations =
     [Http_State_WaitForConnection \<mapsto> configured
        [permit Http_Trigger_Continue Http_State_WaitForConnection,
         permit Http_Trigger_Break Http_State_WaitForConnection,
         permit Http_Trigger_Connected Http_State_Connected],
      Http_State_Connected \<mapsto> configured
        [permit Http_Trigger_Disconnect Http_State_WaitForConnection,
         permit Http_Trigger_RequestBegin Http_State_RequestActionLine],
      Http_State_RequestActionLine \<mapsto> configured
        [permit Http_Trigger_Disconnect Http_State_WaitForConnection,
         permit Http_Trigger_RequestHeader Http_State_RequestHeaderLine,
         permit Http_Trigger_RequestChunk Http_State_RequestLastHeader],
      Http_State_RequestHeaderLine \<mapsto> configured
        [permit Http_Trigger_Disconnect Http_State_WaitForConnection,
         permit Http_Trigger_RequestHeader Http_State_RequestHeaderLine,
         permit Http_Trigger_RequestChunk Http_State_RequestLastHeader],
      Http_State_RequestLastHeader \<mapsto> configured
        [permit Http_Trigger_Disconnect Http_State_WaitForConnection,
         permit Http_Trigger_Break Http_State_RequestChunk],
      Http_State_RequestChunk \<mapsto> configured
        [permit Http_Trigger_Disconnect Http_State_WaitForConnection,
         permit Http_Trigger_RequestChunk Http_State_RequestChunk,
         permit Http_Trigger_RequestEnd Http_State_ResponseActionLine],
      Http_State_ResponseActionLine \<mapsto> configured
        [permit Http_Trigger_Disconnect Http_State_WaitForConnection,
         permit Http_Trigger_Continue Http_State_ResponseActionLine,
         permit Http_Trigger_Break Http_State_ResponseHeaderLine],
      Http_State_ResponseHeaderLine \<mapsto> configured
        [permit Http_Trigger_Disconnect Http_State_WaitForConnection,
         permit Http_Trigger_Continue Http_State_ResponseHeaderLine,
         permit Http_Trigger_TransferEncodingChunked
           Http_State_ResponseHeaderLineAndTransferEncodingChunked,
         permit Http_Trigger_ContentLength Http_State_ResponseHeaderLineAndContentLength,
         permit Http_Trigger_ConnectionClose Http_State_ResponseHeaderLineConnectionClose,
         permit Http_Trigger_Break Http_State_ResponseContent],
      Http_State_ResponseHeaderLineAndTransferEncodingChunked \<mapsto> configured
        [permit Http_Trigger_Disconnect Http_State_WaitForConnection,
         permit Http_Trigger_Continue Http_State_ResponseHeaderLineAndTransferEncodingChunked,
         permit Http_Trigger_ConnectionClose
           Http_State_ResponseHeaderLineAndTransferEncodingChunkedAndConnectionClose,
         permit Http_Trigger_Break Http_State_ResponseChunkSize],
      Http_State_ResponseHeaderLineAndContentLength \<mapsto> configured
        [permit Http_Trigger_Disconnect Http_State_WaitForConnection,
         permit Http_Trigger_ConnectionClose
           Http_State_ResponseHeaderLineAndContentLengthAndConnectionClose,
         permit Http_Trigger_Continue Http_State_ResponseHeaderLineAndContentLength,
         permit Http_Trigger_Break Http_State_ResponseContent],
      Http_State_ResponseHeaderLineConnectionClose \<mapsto> configured
        [permit Http_Trigger_Disconnect Http_State_WaitForConnection,
         permit Http_Trigger_ContentLength
           Http_State_ResponseHeaderLineAndContentLengthAndConnectionClose,
         permit Http_Trigger_TransferEncodingChunked
           Http_State_ResponseHeaderLineAndTransferEncodingChunkedAndConnectionClose,
         permit Http_Trigger_Continue Http_State_ResponseHeaderLineConnectionClose,
         permit Http_Trigger_Break Http_State_ResponseContentUntilClosed],
      Http_State_ResponseHeaderLineAndContentLengthAndConnectionClose \<mapsto> configured
        [permit Http_Trigger_Disconnect Http_State_WaitForConnection,
         permit Http_Trigger_Continue
           Http_State_ResponseHeaderLineAndContentLengthAndConnectionClose,
         permit Http_Trigger_Break Http_State_ResponseContentUntilClosed],
      Http_State_ResponseHeaderLineAndTransferEncodingChunkedAndConnectionClose \<mapsto> configured
        [permit Http_Trigger_Disconnect Http_State_WaitForConnection,
         permit Http_Trigger_Continue
           Http_State_ResponseHeaderLineAndTransferEncodingChunkedAndConnectionClose,
         permit Http_Trigger_Break Http_State_ResponseChunkSizeAndConnectionClose],
      Http_State_ResponseContentUntilClosed \<mapsto> configured
        [permit Http_Trigger_Disconnect Http_State_EndOfResponseContentUntilClosed,
         permit Http_Trigger_Continue Http_State_ResponseContentUntilClosed,
         permit Http_Trigger_Break Http_State_EndOfResponseContentUntilClosed],
      Http_State_ResponseContent \<mapsto> configured
        [permit Http_Trigger_Disconnect Http_State_WaitForConnection,
         permit Http_Trigger_Continue Http_State_ResponseContent,
         permit Http_Trigger_Break Http_State_EndOfResponse],
      Http_State_ResponseChunkSize \<mapsto> configured
        [permit Http_Trigger_Disconnect Http_State_WaitForConnection,
         permit Http_Trigger_Continue Http_State_ResponseChunkSize,
         permit Http_Trigger_EndOfChunks Http_State_EndOfResponse,
         permit Http_Trigger_Break Http_State_ResponseChunk],
      Http_State_ResponseChunkSizeAndConnectionClose \<mapsto> configured
        [permit Http_Trigger_Disconnect Http_State_WaitForConnection,
         permit Http_Trigger_Continue Http_State_ResponseChunkSizeAndConnectionClose,
         permit Http_Trigger_EndOfChunks Http_State_EndOfResponseContentUntilClosed,
         permit Http_Trigger_Break Http_State_ResponseChunkAndConnectionClose],
      Http_State_ResponseChunk \<mapsto> configured
        [permit Http_Trigger_Disconnect Http_State_WaitForConnection,
         permit Http_Trigger_Continue Http_State_ResponseChunk,
         permit Http_Trigger_Break Http_State_ResponseChunkSize],
      Http_State_ResponseChunkAndConnectionClose \<mapsto> configured
        [permit Http_Trigger_Disconnect Http_State_WaitForConnection,
         permit Http_Trigger_Continue Http_State_ResponseChunkAndConnectionClose,
         permit Http_Trigger_Break Http_State_ResponseChunkSizeAndConnectionClose],
      Http_State_EndOfResponseContentUntilClosed \<mapsto> configured
        [permit Http_Trigger_Disconnect Http_State_WaitForConnection,
         permit Http_Trigger_Continue Http_State_EndOfResponseContentUntilClosed,
         permit Http_Trigger_Break Http_State_WaitForDisconnect],
      Http_State_WaitForDisconnect \<mapsto> configured
        [permit Http_Trigger_Disconnect Http_State_WaitForConnection],
      Http_State_EndOfResponse \<mapsto> configured
        [permit Http_Trigger_Disconnect Http_State_WaitForConnection,
         permit Http_Trigger_RequestBegin Http_State_RequestActionLine]]"

text \<open>\<^verbatim>\<open>TcpClient::Send\<close> called on the client.\<close>

definition http_TcpClient_Send :: "string \<Rightarrow> HttpClient \<Rightarrow> ((error + unit) \<times> HttpClient) option" where
  "http_TcpClient_Send v c =
     map_option (\<lambda>x. (fst x, c\<lparr>tcp := snd x\<rparr>)) (TcpClient_Send v (tcp c))"

definition raise_http :: "http_event \<Rightarrow> HttpClient \<Rightarrow> HttpClient" where
  "raise_http e c = c\<lparr>http_raised := http_raised c @ [e]\<rparr>"

text \<open>The entry handlers.\<close>

definition OnWaitForConnectionEntered :: "HttpClient \<Rightarrow> HttpClient \<times> http_Trigger step" where
  "OnWaitForConnectionEntered c = (c\<lparr>buffer := []\<rparr>, Done)"

definition OnLastHeaderEntered :: "HttpClient \<Rightarrow> (HttpClient \<times> http_Trigger step) option" where
  "OnLastHeaderEntered c =
     map_option
       (\<lambda>x. case x of (Inl e, c') \<Rightarrow> (c', Throw e) | (Inr _, c') \<Rightarrow> (c', Fire_next Http_Trigger_Break))
       (http_TcpClient_Send (''Transfer-Encoding: chunked'' @ CRLF @ CRLF) c)"

definition ActionLineEntered :: "HttpClient \<Rightarrow> HttpClient \<times> http_Trigger step" where
  "ActionLineEntered c =
     (case find_str '' '' 0 (buffer c) of
        None \<Rightarrow> (c, Done)
      | Some endOfProtocol \<Rightarrow>
     (case find_str '' '' (endOfProtocol + 1) (buffer c) of
        None \<Rightarrow> (c, Done)
      | Some endOfCode \<Rightarrow>
     (case find_str CRLF (endOfCode + 1) (buffer c) of
        None \<Rightarrow> (c, Done)
      | Some endOfDescription \<Rightarrow>
     (case substr (buffer c) 0 endOfProtocol of
        Inl e \<Rightarrow> (c, Throw e)
      | Inr protocol \<Rightarrow>
     (case substr (buffer c) (endOfProtocol + 1) (size_t_minus (size_t_minus endOfCode endOfProtocol) 1) of
        Inl e \<Rightarrow> (c, Throw e)
      | Inr codeText \<Rightarrow>
     (case Convert_int codeText of
        Inl e \<Rightarrow> (c, Throw e)
      | Inr code \<Rightarrow>
     (case substr (buffer c) (endOfCode + 1)
             (size_t_minus (size_t_minus endOfDescription endOfCode) 1) of
        Inl e \<Rightarrow> (c, Throw e)
      | Inr description \<Rightarrow>
          (raise_http (ResponseStarted protocol code description)
             (c\<lparr>buffer := drop (endOfDescription + 2) (buffer c), contentLength := 0\<rparr>),
           Fire_next Http_Trigger_Break))))))))"

definition HeaderLineEntered :: "HttpClient \<Rightarrow> HttpClient \<times> http_Trigger step" where
  "HeaderLineEntered c =
     (case find_str CRLF 0 (buffer c) of
        None \<Rightarrow> (c, Done)
      | Some endOfValue \<Rightarrow>
          if endOfValue = 0 then (c\<lparr>buffer := drop 2 (buffer c)\<rparr>, Fire_next Http_Trigger_Break)
          else
     (case find_str '':'' 0 (buffer c) of
        None \<Rightarrow> (c, Done)
      | Some endOfKey \<Rightarrow>
     (case substr (buffer c) 0 endOfKey of
        Inl e \<Rightarrow> (c, Throw e)
      | Inr key \<Rightarrow>
     (case substr (buffer c) (endOfKey + 2) (size_t_minus (size_t_minus endOfValue endOfKey) 2) of
        Inl e \<Rightarrow> (c, Throw e)
      | Inr v \<Rightarrow>
          (let c1 = raise_http (HeaderReceived key v)
                      (c\<lparr>buffer := drop (endOfValue + 2) (buffer c)\<rparr>)
           in if ToLowerCase key = ''transfer-encoding'' \<and> ToLowerCase v = ''chunked''
              then (c1, Fire_next Http_Trigger_TransferEncodingChunked)
              else if ToLowerCase key = ''content-length''
              then (case Convert_size_t 10 v of
                      Inl e \<Rightarrow> (c1, Throw e)
                    | Inr n \<Rightarrow> (c1\<lparr>contentLength := n\<rparr>, Fire_next Http_Trigger_ContentLength))
              else if ToLowerCase key = ''connection'' \<and> ToLowerCase v = ''close''
              then (c1, Fire_next Http_Trigger_ConnectionClose)
              else (c1, Fire_next Http_Trigger_Continue))))))"

definition ContentUntilClosedEntered :: "HttpClient \<Rightarrow> HttpClient \<times> http_Trigger step" where
  "ContentUntilClosedEntered c =
     (if buffer c \<noteq> []
      then ((raise_http (ContentReceived (buffer c)) c)\<lparr>buffer := []\<rparr>, Fire_next Http_Trigger_Continue)
      else (c, Done))"

definition take_content :: "HttpClient \<Rightarrow> HttpClient \<times> http_Trigger step" where
  "take_content c =
     (let count = (if contentLength c < length (buffer c) then contentLength c
                   else length (buffer c))
      in (raise_http (ContentReceived (take count (buffer c)))
            (c\<lparr>buffer := drop count (buffer c), contentLength := contentLength c - count\<rparr>),
          Fire_next Http_Trigger_Continue))"

definition ContentEntered :: "HttpClient \<Rightarrow> HttpClient \<times> http_Trigger step" where
  "ContentEntered c =
     (if contentLength c = 0 then (c, Fire_next Http_Trigger_Break)
      else if buffer c \<noteq> [] then take_content c
      else (c, Done))"

definition ChunkSizeEntered :: "HttpClient \<Rightarrow> HttpClient \<times> http_Trigger step" where
  "ChunkSizeEntered c =
     (case find_str CRLF 0 (buffer c) of
        None \<Rightarrow> (c, Done)
      | Some endOfSize \<Rightarrow>
     (case substr (buffer c) 0 endOfSize of
        Inl e \<Rightarrow> (c, Throw e)
      | Inr sizeText \<Rightarrow>
     (case Convert_size_t 16 sizeText of
        Inl e \<Rightarrow> (c, Throw e)
      | Inr n \<Rightarrow>
          (let c1 = c\<lparr>contentLength := n, buffer := drop (endOfSize + 2) (buffer c)\<rparr>
           in if n = 0
              then (c1\<lparr>buffer := drop (endOfSize + 2) (buffer c1)\<rparr>,
                    Fire_next Http_Trigger_EndOfChunks)
              else (c1, Fire_next Http_Trigger_Break)))))"

definition ChunkEntered :: "HttpClient \<Rightarrow> HttpClient \<times> http_Trigger step" where
  "ChunkEntered c =
     (if contentLength c = 0
      then (if 2 \<le> length (buffer c) \<and> take 2 (buffer c) = CRLF
            then (c\<lparr>buffer := drop 2 (buffer c)\<rparr>, Fire_next Http_Trigger_Break)
            else (c, Done))
      else if buffer c \<noteq> [] then take_content c
      else (c, Done))"

definition EndEntered :: "HttpClient \<Rightarrow> HttpClient" where
  "EndEntered c = raise_http ResponseEnded c"

definition EndOfResponseContentUntilClosedEntered :: "HttpClient \<Rightarrow> HttpClient \<times> http_Trigger step" where
  "EndOfResponseContentUntilClosedEntered c = (EndEntered c, Fire_next Http_Trigger_Break)"

fun http_OnStateEntered :: "http_State \<Rightarrow> HttpClient \<Rightarrow> (HttpClient \<times> http_Trigger step) option" where
  "http_OnStateEntered Http_State_WaitForConnection c = Some (OnWaitForConnectionEntered c)"
| "http_OnStateEntered Http_State_RequestLastHeader c = OnLastHeaderEntered c"
| "http_OnStateEntered Http_State_ResponseActionLine c = Some (ActionLineEntered c)"
| "http_OnStateEntered Http_State_ResponseHeaderLine c = Some (HeaderLineEntered c)"
| "http_OnStateEntered Http_State_ResponseHeaderLineAndTransferEncodingChunked c =
     Some (HeaderLineEntered c)"
| "http_OnStateEntered Http_State_ResponseHeaderLineAndContentLength c =
     Some (HeaderLineEntered c)"
| "http_OnStateEntered Http_State_ResponseHeaderLineConnectionClose c =
     Some (HeaderLineEntered c)"
| "http_OnStateEntered Http_State_ResponseHeaderLineAndContentLengthAndConnectionClose c =
     Some (HeaderLineEntered c)"
| "http_OnStateEntered Http_State_ResponseHeaderLineAndTransferEncodingChunkedAndConnectionClose c =
     Some (HeaderLineEntered c)"
| "http_OnStateEntered Http_State_ResponseContentUntilClosed c =
     Some (ContentUntilClosedEntered c)"
| "http_OnStateEntered Http_State_ResponseContent c = Some (ContentEntered c)"
| "http_OnStateEntered Http_State_ResponseChunkSize c = Some (ChunkSizeEntered c)"
| "http_OnStateEntered Http_State_ResponseChunkSizeAndConnectionClose c =
     Some (ChunkSizeEntered c)"
| "http_OnStateEntered Http_State_ResponseChunk c = Some (ChunkEntered c)"
| "http_OnStateEntered Http_State_ResponseChunkAndConnectionClose c = Some (ChunkEntered c)"
| "http_OnStateEntered Http_State_EndOfResponseContentUntilClosed c =
     Some (EndOfResponseContentUntilClosedEntered c)"
| "http_OnStateEntered Http_State_EndOfResponse c = Some (EndEntered c, Done)"
| "http_OnStateEntered _ c = Some (c, Done)"

partial_function (option) http_Fire ::
  "http_Trigger \<Rightarrow> HttpClient \<Rightarrow> ((error + unit) \<times> HttpClient) option" where
  "http_Fire trigger c =
     (case resolve http_configurations (http_state c) trigger of
        None \<Rightarrow> None
      | Some (Inl e) \<Rightarrow> Some (Inl e, c)
      | Some (Inr None) \<Rightarrow> Some (Inl UndefinedTriggerException, c)
      | Some (Inr (Some dest)) \<Rightarrow>
          (case http_OnStateEntered dest (c\<lparr>http_state := dest\<rparr>) of
             None \<Rightarrow> None
           | Some (c', Done) \<Rightarrow> Some (Inr (), c')
           | Some (c', Throw e) \<Rightarrow> Some (Inl e, c')
           | Some (c', Fire_next t) \<Rightarrow> http_Fire t c'))"

text \<open>
  The members that send a request. Each fires its trigger first and, unless that
  throws, hands its bytes to \<^verbatim>\<open>TcpClient::Send\<close>.
\<close>

definition fire_then_send ::
  "http_Trigger \<Rightarrow> string option \<Rightarrow> HttpClient \<Rightarrow> ((error + unit) \<times> HttpClient) option" where
  "fire_then_send trigger bytes c =
     (case http_Fire trigger c of
        None \<Rightarrow> None
      | Some (Inl e, c') \<Rightarrow> Some (Inl e, c')
      | Some (Inr _, c') \<Rightarrow>
          (case bytes of None \<Rightarrow> Some (Inr (), c') | Some v \<Rightarrow> http_TcpClient_Send v c'))"

definition Begin :: "string \<Rightarrow> string \<Rightarrow> string \<Rightarrow> HttpClient \<Rightarrow> ((error + unit) \<times> HttpClient) option" where
  "Begin method path protocol =
     fire_then_send Http_Trigger_RequestBegin
       (Some (method @ '' '' @ path @ '' '' @ protocol @ CRLF))"

definition SendHeader :: "string \<Rightarrow> string \<Rightarrow> HttpClient \<Rightarrow> ((error + unit) \<times> HttpClient) option" where
  "SendHeader key v = fire_then_send Http_Trigger_RequestHeader (Some (key @ '': '' @ v @ CRLF))"

definition Send :: "string \<Rightarrow> HttpClient \<Rightarrow> ((error + unit) \<times> HttpClient) option" where
  "Send data =
     fire_then_send Http_Trigger_RequestChunk
       (if data \<noteq> [] then Some (Format_x_CRLF (length data) @ data @ CRLF) else None)"

definition End :: "HttpClient \<Rightarrow> ((error + unit) \<times> HttpClient) option" where
  "End = fire_then_send Http_Trigger_RequestEnd (Some (''0'' @ CRLF @ CRLF))"

text \<open>The handlers of the events of the \<^verbatim>\<open>TcpClient\<close>.\<close>

definition OnClientConnected :: "HttpClient \<Rightarrow> ((error + unit) \<times> HttpClient) option" where
  "OnClientConnected c = http_Fire Http_Trigger_Connected c"

definition OnClientDisconnected :: "HttpClient \<Rightarrow> ((error + unit) \<times> HttpClient) option" where
  "OnClientDisconnected c = http_Fire Http_Trigger_Disconnect c"

definition OnDataReceived :: "string \<Rightarrow> HttpClient \<Rightarrow> ((error + unit) \<times> HttpClient) option" where
  "OnDataReceived data c = http_Fire Http_Trigger_Continue (c\<lparr>buffer := buffer c @ data\<rparr>)"

text \<open>
  A client that has just connected, and the same client in a given state of the
  response with a given buffer.
\<close>

definition connected_client :: HttpClient where
  "connected_client =
     \<lparr>tcp = a_client Tcp_State_Connected, http_state = Http_State_Connected, buffer = [],
      contentLength = 0, http_raised = []\<rparr>"

text \<open>Calls in sequence, as long as none throws.\<close>

definition and_then ::
  "((error + unit) \<times> 'c) option \<Rightarrow> ('c \<Rightarrow> ((error + unit) \<times> 'c) option) \<Rightarrow>
     ((error + unit) \<times> 'c) option" where
  "and_then r f =
     (case r of None \<Rightarrow> None | Some (Inl e, c) \<Rightarrow> Some (Inl e, c) | Some (Inr _, c) \<Rightarrow> f c)"

text \<open>
  What the four calls of a chunked request find when they start: the socket is
  connected, nothing is waiting in the send buffer, the socket will not fail, and
  the bytes \<open>w\<close> have been written.
\<close>

definition ready_to_send :: "HttpClient \<Rightarrow> string \<Rightarrow> bool" where
  "ready_to_send c w =
     ((tcp_state (tcp c) = Tcp_State_Connected \<or> tcp_state (tcp c) = Tcp_State_Sending) \<and>
      sendBuffer (tcp c) = [] \<and> None \<notin> set (window (socket (tcp c))) \<and>
      wire (socket (tcp c)) = w)"

definition chunk_size_client :: HttpClient where
  "chunk_size_client = connected_client\<lparr>http_state := Http_State_ResponseChunkSize\<rparr>"

section \<open>xml/Xml.hpp: the progressive parser\<close>

datatype xml_State =
    Xml_State_OpenElement 
  | Xml_State_IgnoreDeclaration 
  | Xml_State_CloseElement 
  | Xml_State_OptionalSlashOrQuestionAfterOpenElement 
  | Xml_State_StartElement 
  | Xml_State_EndElement 
  | Xml_State_OptionalAttribute 
  | Xml_State_AttributeName 
  | Xml_State_OptionalSlashAfterAttributes 
  | Xml_State_ImmediateEndElement 
  | Xml_State_OptionalOpenElement 
  | Xml_State_ElementData 
  | Xml_State_AttributeAssignment 
  | Xml_State_AttributeValueDetermineQuotes 
  | Xml_State_StartAttributeValueSingleQuotes 
  | Xml_State_StartAttributeValueDoubleQuotes 
  | Xml_State_EndAttributeValueSingleQuotes 
  | Xml_State_EndAttributeValueDoubleQuotes 
  | Xml_State_OptionalWhitespaceBeforeAttribute

datatype xml_Trigger =
    Xml_Trigger_Append 
  | Xml_Trigger_OpenElementReceived 
  | Xml_Trigger_DeclarationReceived 
  | Xml_Trigger_OptionalSlashPresent 
  | Xml_Trigger_OptionalQuestionPresent 
  | Xml_Trigger_OptionalSlashNotPresent 
  | Xml_Trigger_ElementNameReceived 
  | Xml_Trigger_OptionalAttributePresent 
  | Xml_Trigger_OptionalAttributeNotPresent 
  | Xml_Trigger_OptionalOpenElementPresent 
  | Xml_Trigger_OptionalOpenElementNotPresent 
  | Xml_Trigger_ElementDataReceived 
  | Xml_Trigger_CloseElementReceived 
  | Xml_Trigger_AttributeNameReceived 
  | Xml_Trigger_AttributeAssignmentReceived 
  | Xml_Trigger_SingleQuotesReceived 
  | Xml_Trigger_DoubleQuotesReceived 
  | Xml_Trigger_AttributeValueReceived 
  | Xml_Trigger_WhitespaceReceived 
  | Xml_Trigger_ImmediateEndElementReceived

datatype xml_event =
    StartElementReceived string string
  | EndElementReceived string string
  | AttributeNameReceived string string
  | AttributeValueReceived string
  | Xml_DataReceived string

record ProgressiveParser =
  xml_state :: xml_State
  xml_buffer :: string
  elementNamespaceAndName :: "string list"
  xml_raised :: "xml_event list"

definition xml_configurations :: "(xml_State, xml_Trigger, unit) StateConfigurations" where
  "xml_configurations =
     [Xml_State_OpenElement \<mapsto> configured
        [permit Xml_Trigger_Append Xml_State_OpenElement,
         permit Xml_Trigger_OpenElementReceived Xml_State_OptionalSlashOrQuestionAfterOpenElement],
      Xml_State_OptionalSlashOrQuestionAfterOpenElement \<mapsto> configured
        [permit Xml_Trigger_Append Xml_State_OptionalSlashOrQuestionAfterOpenElement,
         permit Xml_Trigger_OptionalQuestionPresent Xml_State_IgnoreDeclaration,
         permit Xml_Trigger_OptionalSlashPresent Xml_State_EndElement,
         permit Xml_Trigger_OptionalSlashNotPresent Xml_State_StartElement],
      Xml_State_IgnoreDeclaration \<mapsto> configured
        [permit Xml_Trigger_Append Xml_State_IgnoreDeclaration,
         permit Xml_Trigger_DeclarationReceived Xml_State_OpenElement],
      Xml_State_EndElement \<mapsto> configured
        [permit Xml_Trigger_Append Xml_State_EndElement,
         permit Xml_Trigger_ElementNameReceived Xml_State_OpenElement],
      Xml_State_StartElement \<mapsto> configured
        [permit Xml_Trigger_Append Xml_State_StartElement,
         permit Xml_Trigger_ElementNameReceived Xml_State_OptionalWhitespaceBeforeAttribute],
      Xml_State_OptionalWhitespaceBeforeAttribute \<mapsto> configured
        [permit Xml_Trigger_Append Xml_State_OptionalWhitespaceBeforeAttribute,
         permit Xml_Trigger_WhitespaceReceived Xml_State_OptionalAttribute],
      Xml_State_OptionalAttribute \<mapsto> configured
        [permit Xml_Trigger_Append Xml_State_OptionalAttribute,
         permit Xml_Trigger_OptionalAttributePresent Xml_State_AttributeName,
         permit Xml_Trigger_OptionalAttributeNotPresent Xml_State_OptionalSlashAfterAttributes],
      Xml_State_AttributeName \<mapsto> configured
        [permit Xml_Trigger_Append Xml_State_AttributeName,
         permit Xml_Trigger_AttributeNameReceived Xml_State_AttributeAssignment],
      Xml_State_AttributeAssignment \<mapsto> configured
        [permit Xml_Trigger_Append Xml_State_AttributeAssignment,
         permit Xml_Trigger_AttributeAssignmentReceived Xml_State_AttributeValueDetermineQuotes],
      Xml_State_AttributeValueDetermineQuotes \<mapsto> configured
        [permit Xml_Trigger_Append Xml_State_AttributeValueDetermineQuotes,
         permit Xml_Trigger_SingleQuotesReceived Xml_State_StartAttributeValueSingleQuotes,
         permit Xml_Trigger_DoubleQuotesReceived Xml_State_StartAttributeValueDoubleQuotes],
      Xml_State_StartAttributeValueSingleQuotes \<mapsto> configured
        [permit Xml_Trigger_Append Xml_State_StartAttributeValueSingleQuotes,
         permit Xml_Trigger_AttributeValueReceived Xml_State_EndAttributeValueSingleQuotes],
      Xml_State_StartAttributeValueDoubleQuotes \<mapsto> configured
        [permit Xml_Trigger_Append Xml_State_StartAttributeValueDoubleQuotes,
         permit Xml_Trigger_AttributeValueReceived Xml_State_EndAttributeValueDoubleQuotes],
      Xml_State_EndAttributeValueSingleQuotes \<mapsto> configured
        [permit Xml_Trigger_Append Xml_State_EndAttributeValueSingleQuotes,
         permit Xml_Trigger_SingleQuotesReceived Xml_State_OptionalWhitespaceBeforeAttribute],
      Xml_State_EndAttributeValueDoubleQuotes \<mapsto> configured
        [permit Xml_Trigger_Append Xml_State_EndAttributeValueDoubleQuotes,
         permit Xml_Trigger_DoubleQuotesReceived Xml_State_OptionalWhitespaceBeforeAttribute],
      Xml_State_OptionalSlashAfterAttributes \<mapsto> configured
        [permit Xml_Trigger_Append Xml_State_OptionalSlashAfterAttributes,
         permit Xml_Trigger_OptionalSlashPresent Xml_State_ImmediateEndElement,
         permit Xml_Trigger_OptionalSlashNotPresent Xml_State_CloseElement],
      Xml_State_ImmediateEndElement \<mapsto> configured
        [permit Xml_Trigger_Append Xml_State_ImmediateEndElement,
         permit Xml_Trigger_ImmediateEndElementReceived Xml_State_OpenElement],
      Xml_State_CloseElement \<mapsto> configured
        [permit Xml_Trigger_Append Xml_State_CloseElement,
         permit Xml_Trigger_CloseElementReceived Xml_State_OptionalOpenElement],
      Xml_State_OptionalOpenElement \<mapsto> configured
        [permit Xml_Trigger_Append Xml_State_OptionalOpenElement,
         permit Xml_Trigger_OptionalOpenElementPresent Xml_State_OpenElement,
         permit Xml_Trigger_OptionalOpenElementNotPresent Xml_State_ElementData],
      Xml_State_ElementData \<mapsto> configured
        [permit Xml_Trigger_Append Xml_State_ElementData,
         permit Xml_Trigger_ElementDataReceived Xml_State_OpenElement]]"

definition Unescape :: "string \<Rightarrow> string option" where
  "Unescape v =
     Option.bind (Replace v ''&apos;'' [CHR 0x27]) (\<lambda>u1.
     Option.bind (Replace u1 ''&quot;'' [CHR 0x22]) (\<lambda>u2.
     Option.bind (Replace u2 ''&lt;'' ''<'') (\<lambda>u3.
     Option.bind (Replace u3 ''&gt;'' ''>'') (\<lambda>u4.
     Replace u4 ''&amp;'' ''&''))))"

definition raise_xml :: "xml_event \<Rightarrow> ProgressiveParser \<Rightarrow> ProgressiveParser" where
  "raise_xml e p = p\<lparr>xml_raised := xml_raised p @ [e]\<rparr>"

text \<open>
  The event for a name that \<^verbatim>\<open>String::Split\<close> has cut at the colon: with one piece
  the namespace is empty, with two the first is the namespace, and otherwise no event
  is raised.
\<close>

definition raise_named ::
  "(string \<Rightarrow> string \<Rightarrow> xml_event) \<Rightarrow> string list \<Rightarrow> ProgressiveParser \<Rightarrow> ProgressiveParser" where
  "raise_named ev namespaceAndName p =
     (case namespaceAndName of
        [name] \<Rightarrow> raise_xml (ev [] name) p
      | [ns, name] \<Rightarrow> raise_xml (ev ns name) p
      | _ \<Rightarrow> p)"

text \<open>
  The entry handlers. Each looks at the buffer and either takes what it waits for out
  of it and fires, or returns and waits for the next \<^verbatim>\<open>Append\<close>.
\<close>

definition awaits_char ::
  "char \<Rightarrow> xml_Trigger \<Rightarrow> ProgressiveParser \<Rightarrow> (ProgressiveParser \<times> xml_Trigger step) option" where
  "awaits_char ch trigger p =
     (case xml_buffer p of
        [] \<Rightarrow> Some (p, Done)
      | c # cs \<Rightarrow> if c = ch then Some (p\<lparr>xml_buffer := cs\<rparr>, Fire_next trigger)
                  else Some (p, Done))"

definition State_OpenElement_Entered ::
  "ProgressiveParser \<Rightarrow> (ProgressiveParser \<times> xml_Trigger step) option" where
  "State_OpenElement_Entered p = awaits_char CHR ''<'' Xml_Trigger_OpenElementReceived p"

definition State_OptionalSlashOrQuestionAfterOpenElement_Entered ::
  "ProgressiveParser \<Rightarrow> (ProgressiveParser \<times> xml_Trigger step) option" where
  "State_OptionalSlashOrQuestionAfterOpenElement_Entered p =
     (case xml_buffer p of
        [] \<Rightarrow> Some (p, Done)
      | c # cs \<Rightarrow>
          if c = CHR ''/'' then Some (p, Fire_next Xml_Trigger_OptionalSlashPresent)
          else if c = CHR ''?'' then Some (p, Fire_next Xml_Trigger_OptionalQuestionPresent)
          else Some (p, Fire_next Xml_Trigger_OptionalSlashNotPresent))"

definition State_IgnoreDeclaration_Entered ::
  "ProgressiveParser \<Rightarrow> (ProgressiveParser \<times> xml_Trigger step) option" where
  "State_IgnoreDeclaration_Entered p =
     (case find_str ''?>'' 0 (xml_buffer p) of
        None \<Rightarrow> Some (p, Done)
      | Some e \<Rightarrow>
          Some (p\<lparr>xml_buffer := drop (e + 2) (xml_buffer p)\<rparr>,
                Fire_next Xml_Trigger_DeclarationReceived))"

definition State_EndElement_Entered ::
  "ProgressiveParser \<Rightarrow> (ProgressiveParser \<times> xml_Trigger step) option" where
  "State_EndElement_Entered p =
     (case find_str ''>'' 0 (xml_buffer p) of
        None \<Rightarrow> Some (p, Done)
      | Some e \<Rightarrow>
          (case substr (xml_buffer p) 1 (size_t_minus e 1) of
             Inl x \<Rightarrow> Some (p, Throw x)
           | Inr name \<Rightarrow>
               Some (raise_named EndElementReceived (Split name CHR '':'')
                       (p\<lparr>xml_buffer := drop (e + 1) (xml_buffer p)\<rparr>),
                     Fire_next Xml_Trigger_ElementNameReceived)))"

definition State_StartElement_Entered ::
  "ProgressiveParser \<Rightarrow> (ProgressiveParser \<times> xml_Trigger step) option" where
  "State_StartElement_Entered p =
     (case find_first_of [CHR ''/'', CHR ''>'', CHR '' '', CHR 0x09, CHR 0x0D, CHR 0x0A]
             (xml_buffer p) of
        None \<Rightarrow> Some (p, Done)
      | Some e \<Rightarrow>
          (let names = Split (take e (xml_buffer p)) CHR '':''
           in Some (raise_named StartElementReceived names
                      (p\<lparr>elementNamespaceAndName := names,
                         xml_buffer := drop e (xml_buffer p)\<rparr>),
                    Fire_next Xml_Trigger_ElementNameReceived)))"

definition State_OptionalWhitespaceBeforeAttribute_Entered ::
  "ProgressiveParser \<Rightarrow> (ProgressiveParser \<times> xml_Trigger step) option" where
  "State_OptionalWhitespaceBeforeAttribute_Entered p =
     (case find_first_not_of [CHR ''?'', CHR '' '', CHR 0x09, CHR 0x0D, CHR 0x0A]
             (xml_buffer p) of
        None \<Rightarrow> Some (p, Done)
      | Some e \<Rightarrow>
          Some (p\<lparr>xml_buffer := drop e (xml_buffer p)\<rparr>,
                Fire_next Xml_Trigger_WhitespaceReceived))"

definition State_OptionalAttribute_Entered ::
  "ProgressiveParser \<Rightarrow> (ProgressiveParser \<times> xml_Trigger step) option" where
  "State_OptionalAttribute_Entered p =
     (case xml_buffer p of
        [] \<Rightarrow> Some (p, Done)
      | c # cs \<Rightarrow>
          if c = CHR ''/'' \<or> c = CHR ''>''
          then Some (p, Fire_next Xml_Trigger_OptionalAttributeNotPresent)
          else Some (p, Fire_next Xml_Trigger_OptionalAttributePresent))"

definition State_AttributeName_Entered ::
  "ProgressiveParser \<Rightarrow> (ProgressiveParser \<times> xml_Trigger step) option" where
  "State_AttributeName_Entered p =
     (case find_str ''='' 0 (xml_buffer p) of
        None \<Rightarrow> Some (p, Done)
      | Some e \<Rightarrow>
          Some (raise_named AttributeNameReceived (Split (take e (xml_buffer p)) CHR '':'')
                  (p\<lparr>xml_buffer := drop e (xml_buffer p)\<rparr>),
                Fire_next Xml_Trigger_AttributeNameReceived))"

definition State_AttributeAssignment_Entered ::
  "ProgressiveParser \<Rightarrow> (ProgressiveParser \<times> xml_Trigger step) option" where
  "State_AttributeAssignment_Entered p =
     awaits_char CHR ''='' Xml_Trigger_AttributeAssignmentReceived p"

definition State_AttributeValueDetermineQuotes_Entered ::
  "ProgressiveParser \<Rightarrow> (ProgressiveParser \<times> xml_Trigger step) option" where
  "State_AttributeValueDetermineQuotes_Entered p =
     (case xml_buffer p of
        [] \<Rightarrow> Some (p, Done)
      | c # cs \<Rightarrow>
          if c = CHR 0x22
          then Some (p\<lparr>xml_buffer := cs\<rparr>, Fire_next Xml_Trigger_DoubleQuotesReceived)
          else if c = CHR 0x27
          then Some (p\<lparr>xml_buffer := cs\<rparr>, Fire_next Xml_Trigger_SingleQuotesReceived)
          else Some (p, Done))"

definition attribute_value_until ::
  "char \<Rightarrow> ProgressiveParser \<Rightarrow> (ProgressiveParser \<times> xml_Trigger step) option" where
  "attribute_value_until quote p =
     (case find_str [quote] 0 (xml_buffer p) of
        None \<Rightarrow> Some (p, Done)
      | Some e \<Rightarrow>
          Some (raise_xml (AttributeValueReceived (take e (xml_buffer p)))
                  (p\<lparr>xml_buffer := drop e (xml_buffer p)\<rparr>),
                Fire_next Xml_Trigger_AttributeValueReceived))"

definition State_StartAttributeValueSingleQuotes_Entered ::
  "ProgressiveParser \<Rightarrow> (ProgressiveParser \<times> xml_Trigger step) option" where
  "State_StartAttributeValueSingleQuotes_Entered p = attribute_value_until (CHR 0x27) p"

definition State_StartAttributeValueDoubleQuotes_Entered ::
  "ProgressiveParser \<Rightarrow> (ProgressiveParser \<times> xml_Trigger step) option" where
  "State_StartAttributeValueDoubleQuotes_Entered p = attribute_value_until (CHR 0x22) p"

definition State_EndAttributeValueSingleQuotes_Entered ::
  "ProgressiveParser \<Rightarrow> (ProgressiveParser \<times> xml_Trigger step) option" where
  "State_EndAttributeValueSingleQuotes_Entered p =
     awaits_char (CHR 0x27) Xml_Trigger_SingleQuotesReceived p"

definition State_EndAttributeValueDoubleQuotes_Entered ::
  "ProgressiveParser \<Rightarrow> (ProgressiveParser \<times> xml_Trigger step) option" where
  "State_EndAttributeValueDoubleQuotes_Entered p =
     awaits_char (CHR 0x22) Xml_Trigger_DoubleQuotesReceived p"

definition State_OptionalSlashAfterAttributes_Entered ::
  "ProgressiveParser \<Rightarrow> (ProgressiveParser \<times> xml_Trigger step) option" where
  "State_OptionalSlashAfterAttributes_Entered p =
     (case xml_buffer p of
        [] \<Rightarrow> Some (p, Done)
      | c # cs \<Rightarrow>
          if c = CHR ''/'' then Some (p, Fire_next Xml_Trigger_OptionalSlashPresent)
          else Some (p, Fire_next Xml_Trigger_OptionalSlashNotPresent))"

definition State_ImmediateEndElement_Entered ::
  "ProgressiveParser \<Rightarrow> (ProgressiveParser \<times> xml_Trigger step) option" where
  "State_ImmediateEndElement_Entered p =
     (if 2 \<le> length (xml_buffer p) \<and> take 2 (xml_buffer p) = ''/>''
      then Some (raise_named EndElementReceived (elementNamespaceAndName p)
                   (p\<lparr>xml_buffer := drop 2 (xml_buffer p)\<rparr>),
                 Fire_next Xml_Trigger_ImmediateEndElementReceived)
      else Some (p, Done))"

definition State_CloseElement_Entered ::
  "ProgressiveParser \<Rightarrow> (ProgressiveParser \<times> xml_Trigger step) option" where
  "State_CloseElement_Entered p = awaits_char CHR ''>'' Xml_Trigger_CloseElementReceived p"

definition State_OptionalOpenElement_Entered ::
  "ProgressiveParser \<Rightarrow> (ProgressiveParser \<times> xml_Trigger step) option" where
  "State_OptionalOpenElement_Entered p =
     (case xml_buffer p of
        [] \<Rightarrow> Some (p, Done)
      | c # cs \<Rightarrow>
          if c = CHR ''<'' then Some (p, Fire_next Xml_Trigger_OptionalOpenElementPresent)
          else Some (p, Fire_next Xml_Trigger_OptionalOpenElementNotPresent))"

text \<open>
  \<^verbatim>\<open>State_ElementData_Entered\<close> raises the data event with whatever is in the buffer
  before the next \<^verbatim>\<open><\<close>, also when there is no \<^verbatim>\<open><\<close> yet (then with the whole
  buffer, which it empties) and when the buffer is empty.
\<close>

definition State_ElementData_Entered ::
  "ProgressiveParser \<Rightarrow> (ProgressiveParser \<times> xml_Trigger step) option" where
  "State_ElementData_Entered p =
     (case find_str ''<'' 0 (xml_buffer p) of
        None \<Rightarrow>
          map_option (\<lambda>u. (raise_xml (Xml_DataReceived u) (p\<lparr>xml_buffer := []\<rparr>), Done))
            (Unescape (xml_buffer p))
      | Some e \<Rightarrow>
          map_option
            (\<lambda>u. (raise_xml (Xml_DataReceived u) (p\<lparr>xml_buffer := drop e (xml_buffer p)\<rparr>),
                  Fire_next Xml_Trigger_ElementDataReceived))
            (Unescape (take e (xml_buffer p))))"

fun xml_OnStateEntered ::
  "xml_State \<Rightarrow> ProgressiveParser \<Rightarrow> (ProgressiveParser \<times> xml_Trigger step) option" where
  "xml_OnStateEntered Xml_State_OpenElement p = State_OpenElement_Entered p"
| "xml_OnStateEntered Xml_State_OptionalSlashOrQuestionAfterOpenElement p = State_OptionalSlashOrQuestionAfterOpenElement_Entered p"
| "xml_OnStateEntered Xml_State_IgnoreDeclaration p = State_IgnoreDeclaration_Entered p"
| "xml_OnStateEntered Xml_State_EndElement p = State_EndElement_Entered p"
| "xml_OnStateEntered Xml_State_StartElement p = State_StartElement_Entered p"
| "xml_OnStateEntered Xml_State_OptionalWhitespaceBeforeAttribute p = State_OptionalWhitespaceBeforeAttribute_Entered p"
| "xml_OnStateEntered Xml_State_OptionalAttribute p = State_OptionalAttribute_Entered p"
| "xml_OnStateEntered Xml_State_AttributeName p = State_AttributeName_Entered p"
| "xml_OnStateEntered Xml_State_AttributeAssignment p = State_AttributeAssignment_Entered p"
| "xml_OnStateEntered Xml_State_AttributeValueDetermineQuotes p = State_AttributeValueDetermineQuotes_Entered p"
| "xml_OnStateEntered Xml_State_StartAttributeValueSingleQuotes p = State_StartAttributeValueSingleQuotes_Entered p"
| "xml_OnStateEntered Xml_State_StartAttributeValueDoubleQuotes p = State_StartAttributeValueDoubleQuotes_Entered p"
| "xml_OnStateEntered Xml_State_EndAttributeValueSingleQuotes p = State_EndAttributeValueSingleQuotes_Entered p"
| "xml_OnStateEntered Xml_State_EndAttributeValueDoubleQuotes p = State_EndAttributeValueDoubleQuotes_Entered p"
| "xml_OnStateEntered Xml_State_OptionalSlashAfterAttributes p = State_OptionalSlashAfterAttributes_Entered p"
| "xml_OnStateEntered Xml_State_ImmediateEndElement p = State_ImmediateEndElement_Entered p"
| "xml_OnStateEntered Xml_State_CloseElement p = State_CloseElement_Entered p"
| "xml_OnStateEntered Xml_State_OptionalOpenElement p = State_OptionalOpenElement_Entered p"
| "xml_OnStateEntered Xml_State_ElementData p = State_ElementData_Entered p"

partial_function (option) xml_Fire ::
  "xml_Trigger \<Rightarrow> ProgressiveParser \<Rightarrow> ((error + unit) \<times> ProgressiveParser) option" where
  "xml_Fire trigger p =
     (case resolve xml_configurations (xml_state p) trigger of
        None \<Rightarrow> None
      | Some (Inl e) \<Rightarrow> Some (Inl e, p)
      | Some (Inr None) \<Rightarrow> Some (Inl UndefinedTriggerException, p)
      | Some (Inr (Some dest)) \<Rightarrow>
          (case xml_OnStateEntered dest (p\<lparr>xml_state := dest\<rparr>) of
             None \<Rightarrow> None
           | Some (p', Done) \<Rightarrow> Some (Inr (), p')
           | Some (p', Throw e) \<Rightarrow> Some (Inl e, p')
           | Some (p', Fire_next t) \<Rightarrow> xml_Fire t p'))"

definition Append :: "string \<Rightarrow> ProgressiveParser \<Rightarrow> ((error + unit) \<times> ProgressiveParser) option" where
  "Append v p = xml_Fire Xml_Trigger_Append (p\<lparr>xml_buffer := xml_buffer p @ v\<rparr>)"

text \<open>The parser as its constructor leaves it, and the feeding of chunks in turn.\<close>

definition new_parser :: ProgressiveParser where
  "new_parser =
     \<lparr>xml_state = Xml_State_OpenElement, xml_buffer = [], elementNamespaceAndName = [],
      xml_raised = []\<rparr>"

fun Append_all ::
  "string list \<Rightarrow> ProgressiveParser \<Rightarrow> ((error + unit) \<times> ProgressiveParser) option" where
  "Append_all [] p = Some (Inr (), p)"
| "Append_all (v # vs) p = and_then (Append v p) (Append_all vs)"

definition the_document :: string where
  "the_document = ''<a:b x='1'><c/>text</a:b>''"

text \<open>The parser after the first \<open>k\<close> bytes of the document, fed as one chunk.\<close>

definition fed :: "nat \<Rightarrow> ProgressiveParser" where
  "fed k = (case Append (take k the_document) new_parser of Some (_, p) \<Rightarrow> p | None \<Rightarrow> new_parser)"

chapter \<open>Properties\<close>

section \<open>The document model\<close>

lemma upper_bound_le: "upper_bound k es \<le> length es"
  by (simp add: upper_bound_def length_takeWhile_le)

lemma insert_entry_nth: "insert_entry e es ! upper_bound (fst e) es = e"
  using upper_bound_le [of "fst e" es] by (simp add: insert_entry_def nth_append)

lemma insert_entry_length: "length (insert_entry e es) = Suc (length es)"
  using upper_bound_le [of "fst e" es] by (simp add: insert_entry_def)

lemma insert_entry_neq: "insert_entry e es \<noteq> es"
proof
  assume "insert_entry e es = es"
  then have "length (insert_entry e es) = length es" by simp
  then show False by (simp add: insert_entry_length)
qed

lemma insert_entry_Nil: "insert_entry e [] = [e]"
  by (simp add: insert_entry_def upper_bound_def)

lemma insert_entry_Cons:
  "insert_entry e (x # xs) = (if fst e < fst x then e # x # xs else x # insert_entry e xs)"
  by (simp add: insert_entry_def upper_bound_def)

lemma set_insert_entry: "set (insert_entry e es) = insert e (set es)"
  by (induction es) (auto simp: insert_entry_Nil insert_entry_Cons)

lemma sorted_insert_entry:
  "sorted (map fst es) \<Longrightarrow> sorted (map fst (insert_entry e es))"
proof (induction es)
  case Nil
  then show ?case by (simp add: insert_entry_Nil)
next
  case (Cons x xs)
  show ?case
  proof (cases "fst e < fst x")
    case True
    with Cons.prems show ?thesis by (auto simp: insert_entry_Cons)
  next
    case False
    with Cons show ?thesis by (auto simp: insert_entry_Cons set_insert_entry)
  qed
qed

lemma upper_bound_before: "j < upper_bound k es \<Longrightarrow> \<not> k < fst (es ! j)"
  unfolding upper_bound_def
  by (metis (no_types, lifting) nth_mem set_takeWhileD takeWhile_nth)

lemma insert_entry_take:
  "take (upper_bound (fst e) es) (insert_entry e es) = take (upper_bound (fst e) es) es"
  using upper_bound_le [of "fst e" es] by (simp add: insert_entry_def)

lemma insert_entry_drop:
  "drop (Suc (upper_bound (fst e) es)) (insert_entry e es) = drop (upper_bound (fst e) es) es"
  using upper_bound_le [of "fst e" es] by (simp add: insert_entry_def)

lemma Elements_Add:
  "Elements (fst (Add e ns name)) =
     insert_entry (Key ns name, XmlElement ns name [] [] []) (Elements e)"
  by (cases e) (simp add: Add_def)

lemma snd_Add: "snd (Add e ns name) = upper_bound (Key ns name) (Elements e)"
  by (cases e) (simp add: Add_def)

lemma Add_neq: "fst (Add e ns name) \<noteq> e"
proof
  assume "fst (Add e ns name) = e"
  then have "Elements (fst (Add e ns name)) = Elements e" by simp
  then show False by (simp add: Elements_Add insert_entry_neq)
qed

lemma Attributes_Attribute_missing:
  "find_key (Key ns name) (Attributes e) = None \<Longrightarrow>
   Attributes (fst (Attribute e ns name)) =
     insert_entry (Key ns name, XmlAttribute ns name []) (Attributes e) \<and>
   snd (Attribute e ns name) = upper_bound (Key ns name) (Attributes e)"
  by (cases e) (simp add: Attribute_def)

lemma Attributes_Attribute_present:
  "find_key (Key ns name) (Attributes e) = Some i \<Longrightarrow> Attribute e ns name = (e, i)"
  by (simp add: Attribute_def)

text \<open>
  C9. When no child element (no attribute) with the lower-cased key \<open>ns:name\<close> is
  present, the const overload of \<open>Element\<close> (\<open>Attribute\<close>) returns the shared
  empty sentinel, whose \<open>Exists()\<close> is false; a const member returns nothing else,
  so the element is as it was. The non-const overload, for the same missing key,
  returns a changed element, whose collection has gained the new empty entry
  \<open>XmlElement(ns, name)\<close> (\<open>XmlAttribute(ns, name)\<close>), and a reference to that
  entry: a non-const lookup of a missing name mutates the document.
\<close>

theorem lookup_of_missing_name:
  "(find_key (Key ns name) (Elements e) = None \<longrightarrow>
      Element_const e ns name = NullElement \<and> \<not> Exists NullElement \<and>
      fst (Element e ns name) \<noteq> e \<and>
      Elements (fst (Element e ns name)) =
        insert_entry (Key ns name, XmlElement ns name [] [] []) (Elements e) \<and>
      Attributes (fst (Element e ns name)) = Attributes e \<and>
      Elements (fst (Element e ns name)) ! snd (Element e ns name) =
        (Key ns name, XmlElement ns name [] [] [])) \<and>
   (find_key (Key ns name) (Attributes e) = None \<longrightarrow>
      Attribute_const e ns name = NullAttribute \<and> \<not> attribute_Exists NullAttribute \<and>
      fst (Attribute e ns name) \<noteq> e \<and>
      Attributes (fst (Attribute e ns name)) =
        insert_entry (Key ns name, XmlAttribute ns name []) (Attributes e) \<and>
      Elements (fst (Attribute e ns name)) = Elements e \<and>
      Attributes (fst (Attribute e ns name)) ! snd (Attribute e ns name) =
        (Key ns name, XmlAttribute ns name []))"
proof (intro conjI impI)
  assume m: "find_key (Key ns name) (Elements e) = None"
  then have E: "Element e ns name = Add e ns name" by (simp add: Element_def)
  show "Element_const e ns name = NullElement" using m by (simp add: Element_const_def)
  show "\<not> Exists NullElement" by (simp add: Exists_def NullElement_def)
  show "fst (Element e ns name) \<noteq> e" by (simp add: E Add_neq)
  show "Elements (fst (Element e ns name)) =
        insert_entry (Key ns name, XmlElement ns name [] [] []) (Elements e)"
    by (simp add: E Elements_Add)
  show "Attributes (fst (Element e ns name)) = Attributes e"
    using E by (cases e) (simp add: Add_def)
  show "Elements (fst (Element e ns name)) ! snd (Element e ns name) =
        (Key ns name, XmlElement ns name [] [] [])"
    using insert_entry_nth [of "(Key ns name, XmlElement ns name [] [] [])" "Elements e"]
    by (simp add: E Elements_Add snd_Add)
next
  assume m: "find_key (Key ns name) (Attributes e) = None"
  note A = Attributes_Attribute_missing [OF m]
  show "Attribute_const e ns name = NullAttribute" using m by (simp add: Attribute_const_def)
  show "\<not> attribute_Exists NullAttribute" by (simp add: attribute_Exists_def NullAttribute_def)
  show "Attributes (fst (Attribute e ns name)) =
        insert_entry (Key ns name, XmlAttribute ns name []) (Attributes e)"
    using A by simp
  then show "fst (Attribute e ns name) \<noteq> e"
    using insert_entry_neq [of "(Key ns name, XmlAttribute ns name [])" "Attributes e"]
    by auto
  show "Elements (fst (Attribute e ns name)) = Elements e"
    using m by (cases e) (simp add: Attribute_def)
  show "Attributes (fst (Attribute e ns name)) ! snd (Attribute e ns name) =
        (Key ns name, XmlAttribute ns name [])"
    using A insert_entry_nth [of "(Key ns name, XmlAttribute ns name [])" "Attributes e"]
    by simp
qed

theorem lookup_of_missing_name_witness:
  "find_key (Key [] ''test'') (Elements (XmlElement [] ''root'' [] [] [])) = None \<and>
   find_key (Key [] ''test'') (Attributes (XmlElement [] ''root'' [] [] [])) = None \<and>
   Element_const (XmlElement [] ''root'' [] [] []) [] ''test'' = NullElement \<and>
   Elements (fst (Element (XmlElement [] ''root'' [] [] []) [] ''test'')) =
     [('':test'', XmlElement [] ''test'' [] [] [])] \<and>
   Attributes (fst (Attribute (XmlElement [] ''root'' [] [] []) [] ''test'')) =
     [('':test'', XmlAttribute [] ''test'' [])]"
  using lookup_of_missing_name [of "[]" "''test''" "XmlElement [] ''root'' [] [] []"]
  by (simp add: insert_entry_Nil Key_def ToLowerCase_def tolower_def)

text \<open>
  C7, as stated: serialisation emits attributes and child elements in insertion
  order. It does not: the attribute \<open>b\<close> set before the attribute \<open>a\<close> is written
  after it, and the child \<open>b\<close> added before the child \<open>a\<close> is written after it.
\<close>

theorem serialisation_order_counterexample:
  "ToString (fst (Attribute (fst (Attribute (XmlElement [] ''root'' [] [] []) [] ''b'')) [] ''a''))
     = Some (''<root a='' @ [CHR 0x27, CHR 0x27] @ '' b='' @ [CHR 0x27, CHR 0x27] @ ''></root>'') \<and>
   ToString (fst (Add (fst (Add (XmlElement [] ''root'' [] [] []) [] ''b'')) [] ''a''))
     = Some ''<root><a></a><b></b></root>''"
  by code_simp

text \<open>
  C7, amended. The document of \<^verbatim>\<open>Xml::UnitTest\<close> serialises to exactly
  \<^verbatim>\<open><root attr1='12'><test>def</test><test>ghi</test></root>\<close>. In general the
  serialiser walks the two collections in their order, which is ascending in the
  lower-cased key \<open>ns:name\<close>: a new attribute and a new child are entered behind
  every entry whose key is not greater and before every entry whose key is greater,
  so children (which may share a key) keep their insertion order among equal keys,
  and the entries already present keep their order.
\<close>

theorem serialisation_order:
  "ToString UnitTest_xml = Some ''<root attr1='12'><test>def</test><test>ghi</test></root>'' \<and>
   ToStartElementString e [] =
     ''<'' @ qualified_name (element_namespace e) (element_name e)
       @ concat (map (\<lambda>i. attribute_string (snd i)) (Attributes e)) @ ''>'' \<and>
   (sorted (map fst (Elements e)) \<longrightarrow>
      sorted (map fst (Elements (fst (Add e ns name)))) \<and>
      (\<forall>j < snd (Add e ns name). fst (Elements e ! j) \<le> Key ns name) \<and>
      take (snd (Add e ns name)) (Elements (fst (Add e ns name))) =
        take (snd (Add e ns name)) (Elements e) \<and>
      drop (Suc (snd (Add e ns name))) (Elements (fst (Add e ns name))) =
        drop (snd (Add e ns name)) (Elements e) \<and>
      (\<forall>x \<in> set (drop (snd (Add e ns name)) (Elements e)). Key ns name < fst x)) \<and>
   (sorted (map fst (Attributes e)) \<longrightarrow>
      sorted (map fst (Attributes (fst (Attribute e ns name)))))"
proof (intro conjI impI allI)
  show "ToString UnitTest_xml = Some ''<root attr1='12'><test>def</test><test>ghi</test></root>''"
    by code_simp
  show "ToStartElementString e [] =
     ''<'' @ qualified_name (element_namespace e) (element_name e)
       @ concat (map (\<lambda>i. attribute_string (snd i)) (Attributes e)) @ ''>''"
    by (simp add: ToStartElementString_def)
next
  assume s: "sorted (map fst (Elements e))"
  let ?k = "Key ns name"
  let ?n = "upper_bound ?k (Elements e)"
  show "sorted (map fst (Elements (fst (Add e ns name))))"
    using s by (simp add: Elements_Add sorted_insert_entry)
  show "take (snd (Add e ns name)) (Elements (fst (Add e ns name))) =
        take (snd (Add e ns name)) (Elements e)"
    using insert_entry_take [of "(?k, XmlElement ns name [] [] [])" "Elements e"]
    by (simp add: Elements_Add snd_Add)
  show "drop (Suc (snd (Add e ns name))) (Elements (fst (Add e ns name))) =
        drop (snd (Add e ns name)) (Elements e)"
    using insert_entry_drop [of "(?k, XmlElement ns name [] [] [])" "Elements e"]
    by (simp add: Elements_Add snd_Add)
  show "\<forall>x \<in> set (drop (snd (Add e ns name)) (Elements e)). Key ns name < fst x"
  proof
    fix x assume "x \<in> set (drop (snd (Add e ns name)) (Elements e))"
    then have x: "x \<in> set (dropWhile (\<lambda>e. \<not> ?k < fst e) (Elements e))"
      by (simp add: snd_Add upper_bound_def dropWhile_eq_drop)
    then have ne: "dropWhile (\<lambda>e. \<not> ?k < fst e) (Elements e) \<noteq> []"
      by (auto simp del: dropWhile_eq_Nil_conv)
    have h: "?k < fst (hd (dropWhile (\<lambda>e. \<not> ?k < fst e) (Elements e)))"
      using hd_dropWhile [OF ne] by simp
    have "sorted (map fst (dropWhile (\<lambda>e. \<not> ?k < fst e) (Elements e)))"
      using s by (metis dropWhile_eq_drop drop_map sorted_wrt_drop)
    with x ne have "fst (hd (dropWhile (\<lambda>e. \<not> ?k < fst e) (Elements e))) \<le> fst x"
      by (cases "dropWhile (\<lambda>e. \<not> ?k < fst e) (Elements e)") auto
    with h show "?k < fst x" by simp
  qed
  fix j assume "j < snd (Add e ns name)"
  then show "fst (Elements e ! j) \<le> Key ns name"
    using upper_bound_before [of j ?k "Elements e"] by (simp add: snd_Add)
next
  assume s: "sorted (map fst (Attributes e))"
  show "sorted (map fst (Attributes (fst (Attribute e ns name))))"
  proof (cases "find_key (Key ns name) (Attributes e)")
    case None
    with s show ?thesis by (simp add: Attributes_Attribute_missing sorted_insert_entry)
  next
    case (Some i)
    with s show ?thesis by (simp add: Attributes_Attribute_present)
  qed
qed

theorem serialisation_order_witness:
  "sorted (map fst (Elements (fst (Add (XmlElement [] ''root'' [] [] []) [] ''b'')))) \<and>
   sorted (map fst (Attributes (fst (Attribute (XmlElement [] ''root'' [] [] []) [] ''b'')))) \<and>
   sorted (map fst (Elements
     (fst (Add (fst (Add (XmlElement [] ''root'' [] [] []) [] ''b'')) [] ''a'')))) \<and>
   sorted (map fst (Attributes
     (fst (Attribute (fst (Attribute (XmlElement [] ''root'' [] [] []) [] ''b'')) [] ''a''))))"
  using serialisation_order [of "XmlElement [] ''root'' [] [] []" "[]" "''b''"]
    serialisation_order [of "fst (Add (XmlElement [] ''root'' [] [] []) [] ''b'')" "[]" "''a''"]
    serialisation_order
      [of "fst (Attribute (XmlElement [] ''root'' [] [] []) [] ''b'')" "[]" "''a''"]
  by (simp add: Add_def Attribute_def insert_entry_Nil)

section \<open>The state machine\<close>

lemma same_lookups_refl: "same_lookups a a"
  by (simp add: same_lookups_def)

lemma same_lookups_sym: "same_lookups a b \<Longrightarrow> same_lookups b a"
  by (simp add: same_lookups_def)

lemma same_lookups_trans: "same_lookups a b \<Longrightarrow> same_lookups b c \<Longrightarrow> same_lookups a c"
  by (simp add: same_lookups_def)

lemma snd_Configure: "snd (Configure cs s) = lookup cs s"
  by (simp add: lookup_def)

lemma same_lookups_Configure: "same_lookups cs (fst (Configure cs s))"
  by (auto simp: same_lookups_def lookup_def Configure_def split: option.splits)

lemma lookup_Some: "cs s = Some c \<Longrightarrow> lookup cs s = c"
  by (simp add: lookup_def Configure_def)

lemma lookup_None: "cs s = None \<Longrightarrow> lookup cs s = empty_configuration"
  by (simp add: lookup_def Configure_def)

lemma own_loop_Some:
  "own_loop w rng (Some j) =
     (if filter (CanTransition w) rng = [] then Inr (Some j) else Inl MultipleTriggerException)"
  by (induction rng) auto

lemma own_loop_None:
  "own_loop w rng None =
     (case filter (CanTransition w) rng of
        [] \<Rightarrow> Inr None
      | [i] \<Rightarrow> Inr (Some i)
      | _ \<Rightarrow> Inl MultipleTriggerException)"
  by (induction rng) (auto simp: own_loop_Some split: list.splits)

lemma super_loop_frame:
  assumes G: "\<And>a c y. g a c = Some y \<Longrightarrow>
      same_lookups a (snd y) \<and>
      (\<forall>b. same_lookups a b \<longrightarrow>
         (\<exists>b'. Transition b c t w = Some (fst y, b') \<and> same_lookups b b'))"
  shows "super_loop g ps acc a = Some y \<Longrightarrow>
      same_lookups a (snd y) \<and>
      (\<forall>b. same_lookups a b \<longrightarrow>
         (\<exists>b'. super_loop (\<lambda>cs1 c1. Transition cs1 c1 t w) ps acc b = Some (fst y, b') \<and>
               same_lookups b b'))"
proof (induction ps arbitrary: acc a y)
  case Nil
  then show ?case by (auto simp: same_lookups_refl)
next
  case (Cons p ps)
  obtain a1 c where C: "Configure a p = (a1, c)" by (cases "Configure a p")
  from C have c: "c = lookup a p" and a1: "same_lookups a a1"
    using snd_Configure [of a p] same_lookups_Configure [of a p] by simp_all
  from Cons.prems C obtain r a2 where g: "g a1 c = Some (r, a2)"
    by (cases "g a1 c") auto
  note Gg = G [OF g]
  then have a12: "same_lookups a1 a2" by simp
  have step: "same_lookups a b \<Longrightarrow>
      \<exists>b1 b2. Configure b p = (b1, c) \<and> Transition b1 c t w = Some (r, b2) \<and>
              same_lookups b b2 \<and> same_lookups a2 b2" for b
  proof -
    assume ab: "same_lookups a b"
    obtain b1 c' where B: "Configure b p = (b1, c')" by (cases "Configure b p")
    from B have c': "c' = lookup b p" and b1: "same_lookups b b1"
      using snd_Configure [of b p] same_lookups_Configure [of b p] by simp_all
    from ab c c' have cc: "c' = c" by (simp add: same_lookups_def)
    have "same_lookups a1 b1"
      using a1 ab b1 by (meson same_lookups_sym same_lookups_trans)
    with Gg obtain b2 where T: "Transition b1 c t w = Some (r, b2)" and b12: "same_lookups b1 b2"
      by auto
    have "same_lookups a2 b2"
      using a12 \<open>same_lookups a1 b1\<close> b12 by (meson same_lookups_sym same_lookups_trans)
    moreover have "same_lookups b b2" using b1 b12 by (rule same_lookups_trans)
    ultimately show ?thesis using B cc T by auto
  qed
  have aa2: "same_lookups a a2" using a1 a12 by (rule same_lookups_trans)
  show ?case
  proof (cases r)
    case (Inl e)
    with Cons.prems C g have y: "y = (Inl e, a2)" by simp
    show ?thesis
    proof (intro conjI allI impI)
      show "same_lookups a (snd y)" using y aa2 by simp
      fix b assume "same_lookups a b"
      from step [OF this] obtain b1 b2 where
        "Configure b p = (b1, c)" "Transition b1 c t w = Some (r, b2)" "same_lookups b b2"
        by auto
      then show "\<exists>b'. super_loop (\<lambda>cs1 c1. Transition cs1 c1 t w) (p # ps) acc b = Some (fst y, b') \<and>
               same_lookups b b'"
        using y Inl by auto
    qed
  next
    case (Inr o1)
    define acc' where "acc' = (case o1 of None \<Rightarrow> acc | Some d \<Rightarrow> Some d)"
    show ?thesis
    proof (cases "o1 \<noteq> None \<and> acc \<noteq> None")
      case True
      with Cons.prems C g Inr have y: "y = (Inl MultipleTriggerException, a2)" by auto
      show ?thesis
      proof (intro conjI allI impI)
        show "same_lookups a (snd y)" using y aa2 by simp
        fix b assume "same_lookups a b"
        from step [OF this] obtain b1 b2 where
          "Configure b p = (b1, c)" "Transition b1 c t w = Some (r, b2)" "same_lookups b b2"
          by auto
        then show "\<exists>b'. super_loop (\<lambda>cs1 c1. Transition cs1 c1 t w) (p # ps) acc b = Some (fst y, b') \<and>
               same_lookups b b'"
          using y Inr True by auto
      qed
    next
      case False
      with Cons.prems C g Inr have rec: "super_loop g ps acc' a2 = Some y"
        by (cases o1; cases acc) (auto simp: acc'_def)
      note IH = Cons.IH [OF rec]
      show ?thesis
      proof (intro conjI allI impI)
        show "same_lookups a (snd y)" using IH aa2 by (blast intro: same_lookups_trans)
        fix b assume "same_lookups a b"
        from step [OF this] obtain b1 b2 where
          B: "Configure b p = (b1, c)" "Transition b1 c t w = Some (r, b2)" "same_lookups b b2"
            "same_lookups a2 b2"
          by auto
        with IH obtain b' where
          S: "super_loop (\<lambda>cs1 c1. Transition cs1 c1 t w) ps acc' b2 = Some (fst y, b')"
            "same_lookups b2 b'"
          by blast
        have "super_loop (\<lambda>cs1 c1. Transition cs1 c1 t w) (p # ps) acc b = Some (fst y, b')"
          using B S Inr False by (cases o1; cases acc) (auto simp: acc'_def)
        moreover have "same_lookups b b'" using B(3) S(2) by (rule same_lookups_trans)
        ultimately show "\<exists>b'. super_loop (\<lambda>cs1 c1. Transition cs1 c1 t w) (p # ps) acc b = Some (fst y, b') \<and>
               same_lookups b b'" by blast
      qed
    qed
  qed
qed

lemma Transition_frame_aux:
  assumes "Transition a c t w = Some y"
  shows "same_lookups a (snd y) \<and>
     (\<forall>b. same_lookups a b \<longrightarrow>
        (\<exists>b'. Transition b c t w = Some (fst y, b') \<and> same_lookups b b'))"
proof (rule Transition.raw_induct [where P = "\<lambda>a c t w y. same_lookups a (snd y) \<and>
     (\<forall>b. same_lookups a b \<longrightarrow>
        (\<exists>b'. Transition b c t w = Some (fst y, b') \<and> same_lookups b b'))", OF _ assms])
  fix g :: "('a, 'b, 'c) StateConfigurations \<Rightarrow> ('a, 'b, 'c) StateConfiguration \<Rightarrow> 'b \<Rightarrow> 'c \<Rightarrow>
     ((error + 'a option) \<times> ('a, 'b, 'c) StateConfigurations) option"
  fix a c t w y
  assume IH: "\<And>cs c trigger w y. g cs c trigger w = Some y \<Longrightarrow>
     same_lookups cs (snd y) \<and>
     (\<forall>b. same_lookups cs b \<longrightarrow>
        (\<exists>b'. Transition b c trigger w = Some (fst y, b') \<and> same_lookups b b'))"
  assume body: "(case own_loop w (equal_range t c) None of
        Inl e \<Rightarrow> Some (Inl e, a)
      | Inr None \<Rightarrow> super_loop (\<lambda>cs1 c1. g cs1 c1 t w) (superStates c) None a
      | Inr (Some i) \<Rightarrow> Some (Inr (Some (destination i)), a)) = Some y"
  show "same_lookups a (snd y) \<and>
     (\<forall>b. same_lookups a b \<longrightarrow>
        (\<exists>b'. Transition b c t w = Some (fst y, b') \<and> same_lookups b b'))"
  proof (cases "own_loop w (equal_range t c) None")
    case (Inl e)
    with body have "y = (Inl e, a)" by simp
    with Inl show ?thesis
      by (subst Transition.simps) (auto simp: same_lookups_refl)
  next
    case (Inr o1)
    show ?thesis
    proof (cases o1)
      case (Some i)
      with Inr body have "y = (Inr (Some (destination i)), a)" by simp
      with Inr Some show ?thesis
        by (subst Transition.simps) (auto simp: same_lookups_refl)
    next
      case None
      with Inr body have S: "super_loop (\<lambda>cs1 c1. g cs1 c1 t w) (superStates c) None a = Some y"
        by simp
      have "same_lookups a (snd y) \<and>
        (\<forall>b. same_lookups a b \<longrightarrow>
         (\<exists>b'. super_loop (\<lambda>cs1 c1. Transition cs1 c1 t w) (superStates c) None b = Some (fst y, b') \<and>
               same_lookups b b'))"
        by (rule super_loop_frame [OF _ S]) (rule IH)
      with Inr None show ?thesis
        by (subst Transition.simps) simp
    qed
  qed
qed

lemma Transition_same_lookups:
  "Transition a c t w = Some (r, a') \<Longrightarrow> same_lookups a a'"
  using Transition_frame_aux [of a c t w "(r, a')"] by simp

lemma Transition_frame:
  assumes "same_lookups a b"
  shows "map_option fst (Transition a c t w) = map_option fst (Transition b c t w)"
proof (cases "Transition a c t w")
  case None
  show ?thesis
  proof (cases "Transition b c t w")
    case (Some y)
    from Transition_frame_aux [OF Some] same_lookups_sym [OF assms] None
    show ?thesis by auto
  qed (simp add: None)
next
  case (Some y)
  from Transition_frame_aux [OF Some] assms show ?thesis using Some by auto
qed

lemma answer_frame: "same_lookups a b \<Longrightarrow> answer a t w s = answer b t w s"
  using Transition_frame [of a b "lookup a s" t w]
  by (simp add: answer_def same_lookups_def)

lemma super_loop_combine:
  "same_lookups cfgs cs \<Longrightarrow>
   map_option fst (super_loop (\<lambda>cs1 c1. Transition cs1 c1 t w) ps acc cs) =
     combine acc (map (answer cfgs t w) ps) \<and>
   (\<forall>y. super_loop (\<lambda>cs1 c1. Transition cs1 c1 t w) ps acc cs = Some y \<longrightarrow>
        same_lookups cfgs (snd y))"
proof (induction ps arbitrary: acc cs)
  case Nil
  then show ?case by simp
next
  case (Cons p ps)
  obtain cs1 c where C: "Configure cs p = (cs1, c)" by (cases "Configure cs p")
  from C have c: "c = lookup cs p" and cs1: "same_lookups cs cs1"
    using snd_Configure [of cs p] same_lookups_Configure [of cs p] by simp_all
  have c1: "same_lookups cfgs cs1" using Cons.prems cs1 by (rule same_lookups_trans)
  have cl: "c = lookup cfgs p" using c Cons.prems by (simp add: same_lookups_def)
  have ans: "answer cfgs t w p = map_option fst (Transition cs1 c t w)"
    using Transition_frame [OF c1, of c t w] cl by (simp add: answer_def)
  show ?case
  proof (cases "Transition cs1 c t w")
    case None
    with C ans show ?thesis by simp
  next
    case (Some y)
    obtain r cs2 where y: "y = (r, cs2)" by (cases y)
    have c2: "same_lookups cfgs cs2"
      using c1 Transition_same_lookups [of cs1 c t w r cs2] Some y
      by (auto intro: same_lookups_trans)
    note IH = Cons.IH [OF c2]
    show ?thesis
    proof (cases r)
      case (Inl e)
      with C Some y ans c2 show ?thesis by simp
    next
      case (Inr o1)
      show ?thesis
      proof (cases o1)
        case None
        with Inr C Some y ans IH [of acc] show ?thesis by simp
      next
        case (Some d)
        with Inr C \<open>Transition cs1 c t w = Some y\<close> y ans IH [of "Some d"] c2 show ?thesis
          by (cases acc) simp_all
      qed
    qed
  qed
qed

lemma Transition_answer:
  "same_lookups cfgs cs \<Longrightarrow>
   map_option fst (Transition cs c t w) =
     (case satisfied w t c of
        [] \<Rightarrow> combine None (map (answer cfgs t w) (superStates c))
      | [i] \<Rightarrow> Some (Inr (Some (destination i)))
      | _ \<Rightarrow> Some (Inl MultipleTriggerException))"
  using super_loop_combine [of cfgs cs t w "superStates c" None]
  by (subst Transition.simps) (simp add: own_loop_None satisfied_def split: list.splits)


lemma answer_eq:
  "answer cfgs t w s =
     (case satisfied w t (lookup cfgs s) of
        [] \<Rightarrow> combine None (map (answer cfgs t w) (superStates (lookup cfgs s)))
      | [i] \<Rightarrow> Some (Inr (Some (destination i)))
      | _ \<Rightarrow> Some (Inl MultipleTriggerException))"
  unfolding answer_def [of cfgs t w s]
  by (rule Transition_answer [OF same_lookups_refl])

lemma combine_filter:
  "combine acc rs = combine acc (filter (\<lambda>r. r \<noteq> Some (Inr None)) rs)"
  by (induction acc rs rule: combine.induct) (auto split: option.splits)

lemma combine_declines:
  "\<forall>p \<in> set ps. f p = Some (Inr None) \<Longrightarrow> combine acc (map f ps) = Some (Inr acc)"
  by (induction ps) auto

lemma combine_single:
  assumes "filter (\<lambda>p. f p \<noteq> Some (Inr None)) ps = [p]" and "f p = Some (Inr (Some d))"
  shows "combine None (map f ps) = Some (Inr (Some d))"
proof -
  have "filter (\<lambda>r. r \<noteq> Some (Inr None)) (map f ps) = map f (filter (\<lambda>p. f p \<noteq> Some (Inr None)) ps)"
    by (simp add: filter_map comp_def)
  with assms have "filter (\<lambda>r. r \<noteq> Some (Inr None)) (map f ps) = [Some (Inr (Some d))]" by simp
  then show ?thesis using combine_filter [of None "map f ps"] by simp
qed

lemma super_loop_only_Multiple:
  assumes G: "\<And>a c e cs'. g a c = Some (Inl e, cs') \<Longrightarrow> e = MultipleTriggerException"
  shows "super_loop g ps acc a = Some (Inl e, cs') \<Longrightarrow> e = MultipleTriggerException"
proof (induction ps arbitrary: acc a)
  case Nil
  then show ?case by simp
next
  case (Cons p ps)
  obtain a1 c where C: "Configure a p = (a1, c)" by (cases "Configure a p")
  from Cons.prems C obtain r a2 where g: "g a1 c = Some (r, a2)"
    by (cases "g a1 c") auto
  show ?case
  proof (cases r)
    case (Inl e')
    with Cons.prems C g G [of a1 c e' a2] show ?thesis by simp
  next
    case (Inr o1)
    with Cons.prems C g Cons.IH show ?thesis
      by (cases o1; cases acc) auto
  qed
qed

lemma Transition_only_Multiple:
  assumes "Transition a c t w = Some y"
  shows "\<forall>e. fst y = Inl e \<longrightarrow> e = MultipleTriggerException"
proof (rule Transition.raw_induct [where P = "\<lambda>a c t w y.
         \<forall>e. fst y = Inl e \<longrightarrow> e = MultipleTriggerException", OF _ assms])
  fix g :: "('a, 'b, 'c) StateConfigurations \<Rightarrow> ('a, 'b, 'c) StateConfiguration \<Rightarrow> 'b \<Rightarrow> 'c \<Rightarrow>
     ((error + 'a option) \<times> ('a, 'b, 'c) StateConfigurations) option"
  fix a c t w y
  assume IH: "\<And>cs c trigger w y. g cs c trigger w = Some y \<Longrightarrow>
     \<forall>e. fst y = Inl e \<longrightarrow> e = MultipleTriggerException"
  assume body: "(case own_loop w (equal_range t c) None of
        Inl e \<Rightarrow> Some (Inl e, a)
      | Inr None \<Rightarrow> super_loop (\<lambda>cs1 c1. g cs1 c1 t w) (superStates c) None a
      | Inr (Some i) \<Rightarrow> Some (Inr (Some (destination i)), a)) = Some y"
  show "\<forall>e. fst y = Inl e \<longrightarrow> e = MultipleTriggerException"
  proof (intro allI impI)
    fix e assume e: "fst y = Inl e"
    obtain cs' where y: "y = (Inl e, cs')" using e by (cases y) auto
    show "e = MultipleTriggerException"
    proof (cases "own_loop w (equal_range t c) None")
      case (Inl e')
      with body y show ?thesis
        by (auto simp: own_loop_None split: list.splits)
    next
      case (Inr o1)
      show ?thesis
      proof (cases o1)
        case (Some i)
        with Inr body y show ?thesis by simp
      next
        case None
        with Inr body y
        have S: "super_loop (\<lambda>cs1 c1. g cs1 c1 t w) (superStates c) None a = Some (Inl e, cs')"
          by simp
        show ?thesis
          by (rule super_loop_only_Multiple [OF _ S]) (use IH in fastforce)
      qed
    qed
  qed
qed

lemma answer_only_Multiple: "answer cfgs t w s = Some (Inl e) \<Longrightarrow> e = MultipleTriggerException"
  using Transition_only_Multiple [of cfgs "lookup cfgs s" t w]
  by (auto simp: answer_def)

lemma combine_ambiguous:
  assumes "\<forall>r \<in> set rs. r \<noteq> None"
    and "\<forall>r \<in> set rs. \<forall>e. r = Some (Inl e) \<longrightarrow> e = MultipleTriggerException"
    and "(if acc = None then 2 else 1) \<le> length (filter (\<lambda>r. \<exists>d. r = Some (Inr (Some d))) rs)"
  shows "combine acc rs = Some (Inl MultipleTriggerException)"
  using assms
proof (induction acc rs rule: combine.induct)
  case (5 result d rs)
  then show ?case by (cases result) (auto split: if_splits)
qed (auto split: if_splits)

lemma Fire_cases:
  assumes c: "stateConfigurations m (stateAccessor m w) = Some c"
  shows "(answer (stateConfigurations m) t w (stateAccessor m w) = None \<longrightarrow> Fire m t w = None) \<and>
    (\<forall>e. answer (stateConfigurations m) t w (stateAccessor m w) = Some (Inl e) \<longrightarrow>
       (\<exists>cs'. Fire m t w = Some (Inl e, m\<lparr>stateConfigurations := cs'\<rparr>, w) \<and>
              same_lookups (stateConfigurations m) cs')) \<and>
    (answer (stateConfigurations m) t w (stateAccessor m w) = Some (Inr None) \<longrightarrow>
       (\<exists>cs'. Fire m t w =
           Some (Inl UndefinedTriggerException, m\<lparr>stateConfigurations := cs'\<rparr>, w) \<and>
              same_lookups (stateConfigurations m) cs')) \<and>
    (\<forall>d. answer (stateConfigurations m) t w (stateAccessor m w) = Some (Inr (Some d)) \<longrightarrow>
       (\<exists>cs'. Fire m t w =
           Some (Inr (), m\<lparr>stateConfigurations := cs'\<rparr>,
             OnStateEntered (lookup (stateConfigurations m) d)
               (stateMutator m d (OnStateExited c w))) \<and>
              same_lookups (stateConfigurations m) cs'))"
proof -
  let ?cfgs = "stateConfigurations m"
  let ?s = "stateAccessor m w"
  have l: "lookup ?cfgs ?s = c" using c by (rule lookup_Some)
  have a: "answer ?cfgs t w ?s = map_option fst (Transition ?cfgs c t w)"
    by (simp add: answer_def l)
  have cf: "CanFire m t w = Transition ?cfgs c t w" using c by (simp add: CanFire_def)
  show ?thesis
  proof (cases "Transition ?cfgs c t w")
    case None
    with a cf show ?thesis by (simp add: Fire_def)
  next
    case (Some y)
    obtain r cs where y: "y = (r, cs)" by (cases y)
    have sl: "same_lookups ?cfgs cs" using Some y by (auto dest: Transition_same_lookups)
    show ?thesis
    proof (cases r)
      case (Inl e)
      with a cf Some y sl show ?thesis by (auto simp: Fire_def)
    next
      case (Inr o1)
      show ?thesis
      proof (cases o1)
        case None
        with Inr a cf Some y sl show ?thesis by (auto simp: Fire_def)
      next
        case (Some d)
        obtain cs1 c1 where C1: "Configure cs ?s = (cs1, c1)" by (cases "Configure cs ?s")
        obtain cs2 c2 where C2: "Configure cs1 d = (cs2, c2)" by (cases "Configure cs1 d")
        have s1: "same_lookups cs cs1" and c1: "c1 = lookup cs ?s"
          using C1 same_lookups_Configure [of cs ?s] snd_Configure [of cs ?s] by simp_all
        have s2: "same_lookups cs1 cs2" and c2: "c2 = lookup cs1 d"
          using C2 same_lookups_Configure [of cs1 d] snd_Configure [of cs1 d] by simp_all
        have sl1: "same_lookups ?cfgs cs1" using sl s1 by (rule same_lookups_trans)
        have sl2: "same_lookups ?cfgs cs2" using sl1 s2 by (rule same_lookups_trans)
        have c1': "c1 = c" using c1 sl l by (simp add: same_lookups_def)
        have c2': "c2 = lookup ?cfgs d" using c2 sl1 by (simp add: same_lookups_def)
        have "Fire m t w = Some (Inr (), m\<lparr>stateConfigurations := cs2\<rparr>,
             OnStateEntered (lookup ?cfgs d) (stateMutator m d (OnStateExited c w)))"
          using cf \<open>Transition ?cfgs c t w = Some y\<close> y Inr Some C1 C2 c1' c2'
          by (simp add: Fire_def)
        with sl2 a \<open>Transition ?cfgs c t w = Some y\<close> y Inr Some show ?thesis by auto
      qed
    qed
  qed
qed

lemma Fire_unconfigured:
  "stateConfigurations m (stateAccessor m w) = None \<Longrightarrow>
   Fire m t w = Some (Inl UndefinedTriggerException, m, w)"
  by (simp add: Fire_def CanFire_def)

lemma answer_declines:
  assumes rank: "\<forall>a b. is_superstate cfgs a b \<longrightarrow> rank b < (rank a :: nat)"
    and none: "\<forall>s'. (s, s') \<in> {(a, b). is_superstate cfgs a b}\<^sup>* \<longrightarrow>
                 satisfied w t (lookup cfgs s') = []"
  shows "answer cfgs t w s = Some (Inr None)"
  using none
proof (induction "rank s" arbitrary: s rule: less_induct)
  case less
  have own: "satisfied w t (lookup cfgs s) = []" using less.prems by blast
  have "\<forall>p \<in> set (superStates (lookup cfgs s)). answer cfgs t w p = Some (Inr None)"
  proof
    fix p assume p: "p \<in> set (superStates (lookup cfgs s))"
    then have sp: "is_superstate cfgs s p" by (simp add: is_superstate_def)
    with rank have "rank p < rank s" by blast
    moreover have "\<forall>s'. (p, s') \<in> {(a, b). is_superstate cfgs a b}\<^sup>* \<longrightarrow>
                 satisfied w t (lookup cfgs s') = []"
    proof (intro allI impI)
      fix s' assume "(p, s') \<in> {(a, b). is_superstate cfgs a b}\<^sup>*"
      with sp have "(s, s') \<in> {(a, b). is_superstate cfgs a b}\<^sup>*"
        by (meson case_prodI converse_rtrancl_into_rtrancl mem_Collect_eq)
      with less.prems show "satisfied w t (lookup cfgs s') = []" by blast
    qed
    ultimately show "answer cfgs t w p = Some (Inr None)" by (rule less.hyps)
  qed
  then show ?case
    by (subst answer_eq) (simp add: own combine_declines)
qed


lemma Transition_self_super:
  fixes c :: "('s, 't, 'w) StateConfiguration"
  assumes own: "satisfied w t c = []" and sup: "superStates c = s # ps" and self: "cs s = Some c"
  shows "Transition cs c t w = None"
proof (cases "Transition cs c t w")
  case (Some y)
  have "\<not> (c = c \<and> t = t \<and> w = w \<and> cs s = Some c)"
  proof (rule Transition.raw_induct [where P = "\<lambda>a c' t' w' y.
         \<not> (c' = c \<and> t' = t \<and> w' = w \<and> a s = Some c)", OF _ Some])
    fix g :: "('s, 't, 'w) StateConfigurations \<Rightarrow> ('s, 't, 'w) StateConfiguration \<Rightarrow> 't \<Rightarrow> 'w \<Rightarrow>
       ((error + 's option) \<times> ('s, 't, 'w) StateConfigurations) option"
    fix a c' t' w' y
    assume IH: "\<And>cs c' trigger w' y. g cs c' trigger w' = Some y \<Longrightarrow>
       \<not> (c' = c \<and> trigger = t \<and> w' = w \<and> cs s = Some c)"
    assume body: "(case own_loop w' (equal_range t' c') None of
          Inl e \<Rightarrow> Some (Inl e, a)
        | Inr None \<Rightarrow> super_loop (\<lambda>cs1 c1. g cs1 c1 t' w') (superStates c') None a
        | Inr (Some i) \<Rightarrow> Some (Inr (Some (destination i)), a)) = Some y"
    show "\<not> (c' = c \<and> t' = t \<and> w' = w \<and> a s = Some c)"
    proof
      assume A: "c' = c \<and> t' = t \<and> w' = w \<and> a s = Some c"
      with own have "own_loop w' (equal_range t' c') None = Inr None"
        by (simp add: own_loop_None satisfied_def)
      with body A sup have "super_loop (\<lambda>cs1 c1. g cs1 c1 t w) (s # ps) None a = Some y"
        by simp
      moreover have "Configure a s = (a, c)" using A by (simp add: Configure_def)
      ultimately obtain z where "g a c t w = Some z"
        by (cases "g a c t w") auto
      from IH [OF this] A show False by simp
    qed
  qed
  with self show ?thesis by simp
qed

lemmas sm_defs = OnExit_def OnEntry_def SubstateOf_def Permit_def empty_configuration_def
  satisfied_def equal_range_def CanTransition_def DefaultPredicate_def lookup_def Configure_def
  OnStateEntered_def OnStateExited_def invoke_def declines_def provides_def is_superstate_def


lemma Transition_own:
  "satisfied w t c = [i] \<Longrightarrow> Transition cs c t w = Some (Inr (Some (destination i)), cs)"
  by (subst Transition.simps) (simp add: own_loop_None satisfied_def)

lemma Transition_own_ambiguous:
  "2 \<le> length (satisfied w t c) \<Longrightarrow> Transition cs c t w = Some (Inl MultipleTriggerException, cs)"
  by (subst Transition.simps) (auto simp: own_loop_None satisfied_def split: list.splits)


lemma logged_lookup:
  "lookup (stateConfigurations logged_machine) s =
     (if s = 5 then \<lparr>superStates = [1, 2], triggerConfigurations = [], stateEntered = None,
                      stateExited = None\<rparr>
      else if s = 3 then \<lparr>superStates = [], triggerConfigurations = [],
                      stateEntered = Some (\<lambda>w. (fst w, snd w @ [''enter 3''])), stateExited = None\<rparr>
      else if s = 2 then \<lparr>superStates = [],
          triggerConfigurations =
            [(0, \<lparr>destination = 4, predicate = DefaultPredicate\<rparr>),
             (1, \<lparr>destination = 3, predicate = DefaultPredicate\<rparr>),
             (2, \<lparr>destination = 3, predicate = DefaultPredicate\<rparr>),
             (2, \<lparr>destination = 4, predicate = DefaultPredicate\<rparr>),
             (3, \<lparr>destination = 4, predicate = \<lambda>w. False\<rparr>)],
          stateEntered = None, stateExited = Some (\<lambda>w. (fst w, snd w @ [''exit 2'']))\<rparr>
      else if s = 1 then \<lparr>superStates = [2],
          triggerConfigurations = [(0, \<lparr>destination = 3, predicate = DefaultPredicate\<rparr>)],
          stateEntered = None, stateExited = Some (\<lambda>w. (fst w, snd w @ [''exit 1'']))\<rparr>
      else empty_configuration)"
  by (simp add: logged_machine_def OnExit_def OnEntry_def SubstateOf_def Permit_def
        empty_configuration_def lookup_def Configure_def)

lemma logged_configured:
  "s \<in> {1, 2, 3, 5} \<Longrightarrow>
   stateConfigurations logged_machine s = Some (lookup (stateConfigurations logged_machine) s)"
  by (auto simp: logged_machine_def lookup_def Configure_def)


text \<open>
  C1, as stated, for every configured machine. It fails where a state is its own
  super-state: in \<open>cyclic_machine\<close> no transition at all is declared, so no
  transition on state 0 or on its super-states has a true guard, and
  \<^verbatim>\<open>Fire\<close> does not throw \<^verbatim>\<open>UndefinedTriggerException\<close>: the search through the
  super-states never returns.
\<close>

theorem Fire_cyclic_counterexample: "Fire cyclic_machine 0 0 = None \<and>
   triggerConfigurations (lookup (stateConfigurations cyclic_machine) 0) = [] \<and>
   superStates (lookup (stateConfigurations cyclic_machine) 0) = [0]"
proof -
  let ?c = "SubstateOf 0 empty_configuration :: (nat, nat, nat) StateConfiguration"
  have "Transition (stateConfigurations cyclic_machine) ?c 0 0 = None"
    by (rule Transition_self_super [where s = 0 and ps = "[]"])
       (simp_all add: cyclic_machine_def sm_defs)
  then show ?thesis
    by (simp add: Fire_def CanFire_def cyclic_machine_def sm_defs)
qed


text \<open>
  C1, amended. Let \<open>s\<close> be the current state, with configuration \<open>c\<close>. If exactly one
  transition of \<open>c\<close> for the trigger has a true guard, or none has and exactly one
  super-state of \<open>s\<close> answers with a transition while every other one answers that it
  has none, then \<^verbatim>\<open>Fire\<close> returns, and the memory it leaves is the memory at the call,
  after the exit handler of \<open>s\<close>, then the mutator with the destination of that
  transition, then the entry handler of the destination, in that order. If \<open>s\<close> has
  no configuration, or if the super-state relation is acyclic (every super-state has a
  smaller rank than its sub-state) and no transition for the trigger on \<open>s\<close> or on a
  state reached from \<open>s\<close> through super-states has a true guard, then \<^verbatim>\<open>Fire\<close> throws
  \<^verbatim>\<open>UndefinedTriggerException\<close> and the memory, so the current state, is as it was.
  In both cases the configurations are as before, up to empty configurations entered
  for states that had none.
\<close>

theorem Fire_transition_found_or_undefined:
  "(stateConfigurations m (stateAccessor m w) = Some c \<and>
    (satisfied w t c = [i] \<and> d = destination i \<or>
     satisfied w t c = [] \<and>
     filter (\<lambda>q. \<not> declines (stateConfigurations m) t w q) (superStates c) = [p] \<and>
     answer (stateConfigurations m) t w p = Some (Inr (Some d))) \<longrightarrow>
    (\<exists>cs'. Fire m t w =
       Some (Inr (), m\<lparr>stateConfigurations := cs'\<rparr>,
         OnStateEntered (lookup (stateConfigurations m) d)
           (stateMutator m d (OnStateExited c w))) \<and>
       same_lookups (stateConfigurations m) cs')) \<and>
   ((stateConfigurations m (stateAccessor m w) = None \<or>
     (\<forall>a b. is_superstate (stateConfigurations m) a b \<longrightarrow> rank b < (rank a :: nat)) \<and>
     (\<forall>s'. (stateAccessor m w, s') \<in> {(a, b). is_superstate (stateConfigurations m) a b}\<^sup>* \<longrightarrow>
        satisfied w t (lookup (stateConfigurations m) s') = [])) \<longrightarrow>
    (\<exists>cs'. Fire m t w =
       Some (Inl UndefinedTriggerException, m\<lparr>stateConfigurations := cs'\<rparr>, w) \<and>
       same_lookups (stateConfigurations m) cs'))"
proof (intro conjI impI)
  let ?cfgs = "stateConfigurations m"
  let ?s = "stateAccessor m w"
  assume A: "?cfgs ?s = Some c \<and>
    (satisfied w t c = [i] \<and> d = destination i \<or>
     satisfied w t c = [] \<and>
     filter (\<lambda>q. \<not> declines ?cfgs t w q) (superStates c) = [p] \<and>
     answer ?cfgs t w p = Some (Inr (Some d)))"
  then have c: "?cfgs ?s = Some c" by simp
  have l: "lookup ?cfgs ?s = c" using c by (rule lookup_Some)
  have "answer ?cfgs t w ?s = Some (Inr (Some d))"
  proof -
    from A consider "satisfied w t c = [i] \<and> d = destination i"
      | "satisfied w t c = [] \<and>
         filter (\<lambda>q. \<not> declines ?cfgs t w q) (superStates c) = [p] \<and>
         answer ?cfgs t w p = Some (Inr (Some d))" by blast
    then show ?thesis
    proof cases
      case 1
      then show ?thesis by (subst answer_eq) (simp add: l)
    next
      case 2
      then have "combine None (map (answer ?cfgs t w) (superStates c)) = Some (Inr (Some d))"
        by (intro combine_single [where p = p]) (simp_all add: declines_def)
      with 2 show ?thesis by (subst answer_eq) (simp add: l)
    qed
  qed
  with Fire_cases [OF c, of t] show "\<exists>cs'. Fire m t w =
       Some (Inr (), m\<lparr>stateConfigurations := cs'\<rparr>,
         OnStateEntered (lookup ?cfgs d) (stateMutator m d (OnStateExited c w))) \<and>
       same_lookups ?cfgs cs'" by blast
next
  let ?cfgs = "stateConfigurations m"
  let ?s = "stateAccessor m w"
  assume B: "?cfgs ?s = None \<or>
     (\<forall>a b. is_superstate ?cfgs a b \<longrightarrow> rank b < rank a) \<and>
     (\<forall>s'. (?s, s') \<in> {(a, b). is_superstate ?cfgs a b}\<^sup>* \<longrightarrow>
        satisfied w t (lookup ?cfgs s') = [])"
  show "\<exists>cs'. Fire m t w =
       Some (Inl UndefinedTriggerException, m\<lparr>stateConfigurations := cs'\<rparr>, w) \<and>
       same_lookups ?cfgs cs'"
  proof (cases "?cfgs ?s")
    case None
    have "m\<lparr>stateConfigurations := ?cfgs\<rparr> = m" by simp
    with Fire_unconfigured [OF None, of t] same_lookups_refl [of ?cfgs] show ?thesis
      by metis
  next
    case (Some c)
    with B have "answer ?cfgs t w ?s = Some (Inr None)"
      by (intro answer_declines [where rank = rank]) auto
    with Fire_cases [OF Some, of t] show ?thesis by blast
  qed
qed


theorem Fire_transition_found_or_undefined_witness:
  "map_option (\<lambda>x. (fst x, snd (snd x))) (Fire logged_machine 0 (1, [])) =
     Some (Inr (), (3, [''exit 1'', ''set'', ''enter 3''])) \<and>
   map_option (\<lambda>x. (fst x, snd (snd x))) (Fire logged_machine 1 (1, [])) =
     Some (Inr (), (3, [''exit 1'', ''set'', ''enter 3''])) \<and>
   map_option (\<lambda>x. (fst x, snd (snd x))) (Fire logged_machine 7 (1, [])) =
     Some (Inl UndefinedTriggerException, (1, [])) \<and>
   map_option (\<lambda>x. (fst x, snd (snd x))) (Fire logged_machine 0 (9, [])) =
     Some (Inl UndefinedTriggerException, (9, []))"
proof -
  let ?m = logged_machine
  let ?cs = "stateConfigurations logged_machine"
  let ?rank = "\<lambda>s::nat. if s = 5 then 2 else if s = 1 then 1 else (0::nat)"
  have sa: "stateAccessor ?m (s, l) = s" and sm: "stateMutator ?m d (s, l) = (d, l @ [''set''])"
    for s d l
    by (simp_all add: logged_machine_def)
  have c1: "?cs (stateAccessor ?m (1, [])) = Some (lookup ?cs 1)"
    by (simp add: sa logged_configured)
  have s0: "satisfied (1, []) 0 (lookup ?cs 1) = [\<lparr>destination = 3, predicate = DefaultPredicate\<rparr>]"
    and s1: "satisfied (1, []) 1 (lookup ?cs 1) = []"
    by (simp_all add: logged_lookup satisfied_def equal_range_def CanTransition_def
          DefaultPredicate_def)
  have a2: "answer ?cs 1 (1, []) 2 = Some (Inr (Some 3))"
    by (subst answer_eq) (simp add: logged_lookup satisfied_def equal_range_def CanTransition_def
          DefaultPredicate_def)
  have f1: "filter (\<lambda>q. \<not> declines ?cs 1 (1, []) q) (superStates (lookup ?cs 1)) = [2]"
    using a2 by (simp add: logged_lookup declines_def)
  have r: "\<forall>a b. is_superstate ?cs a b \<longrightarrow> ?rank b < ?rank a"
    by (auto simp: logged_lookup is_superstate_def empty_configuration_def split: if_splits)
  have n7: "\<forall>s'. (stateAccessor ?m (1, []), s') \<in> {(a, b). is_superstate ?cs a b}\<^sup>* \<longrightarrow>
        satisfied (1, []) 7 (lookup ?cs s') = []"
    by (simp add: logged_lookup satisfied_def equal_range_def empty_configuration_def)
  have u9: "?cs (stateAccessor ?m (9, [])) = None"
    by (simp add: sa logged_machine_def)
  have "\<exists>cs'. Fire ?m 0 (1, []) =
       Some (Inr (), ?m\<lparr>stateConfigurations := cs'\<rparr>, (3, [''exit 1'', ''set'', ''enter 3'']))"
    using Fire_transition_found_or_undefined
      [where m = ?m and w = "(1, [])" and t = 0 and c = "lookup ?cs 1" and d = 3
         and i = "\<lparr>destination = 3, predicate = DefaultPredicate\<rparr>", THEN conjunct1]
      c1 s0
    by (auto simp: sm logged_lookup OnStateEntered_def OnStateExited_def invoke_def)
  moreover have "\<exists>cs'. Fire ?m 1 (1, []) =
       Some (Inr (), ?m\<lparr>stateConfigurations := cs'\<rparr>, (3, [''exit 1'', ''set'', ''enter 3'']))"
    using Fire_transition_found_or_undefined
      [where m = ?m and w = "(1, [])" and t = 1 and c = "lookup ?cs 1" and d = 3 and p = 2,
         THEN conjunct1]
      c1 s1 f1 a2
    by (auto simp: sm logged_lookup OnStateEntered_def OnStateExited_def invoke_def)
  moreover have "\<exists>cs'. Fire ?m 7 (1, []) =
       Some (Inl UndefinedTriggerException, ?m\<lparr>stateConfigurations := cs'\<rparr>, (1, []))"
    using Fire_transition_found_or_undefined
      [where m = ?m and w = "(1, [])" and t = 7 and rank = ?rank, THEN conjunct2] r n7
    by blast
  moreover have "\<exists>cs'. Fire ?m 0 (9, []) =
       Some (Inl UndefinedTriggerException, ?m\<lparr>stateConfigurations := cs'\<rparr>, (9, []))"
    using Fire_transition_found_or_undefined
      [where m = ?m and w = "(9, [])" and t = 0, THEN conjunct2] u9
    by blast
  ultimately show ?thesis by auto
qed


text \<open>
  C2, as stated, for every machine. In \<open>cyclic_super_machine\<close> no guard of state 0
  holds and two of its super-states, 2 and 3, provide a transition for the trigger,
  but the super-state 1, asked first, is its own super-state: \<^verbatim>\<open>Fire\<close> does not
  return, and throws nothing.
\<close>

theorem Fire_ambiguous_counterexample: "satisfied 0 0 (lookup (stateConfigurations cyclic_super_machine) 0) = [] \<and>
   provides (stateConfigurations cyclic_super_machine) 0 0 2 \<and>
   provides (stateConfigurations cyclic_super_machine) 0 0 3 \<and>
   Fire cyclic_super_machine 0 0 = None"
proof -
  let ?cs = "stateConfigurations cyclic_super_machine"
  let ?c1 = "SubstateOf 1 empty_configuration :: (nat, nat, nat) StateConfiguration"
  have 1: "Transition ?cs ?c1 0 0 = None"
    by (rule Transition_self_super [where s = 1 and ps = "[]"])
       (simp_all add: cyclic_super_machine_def sm_defs)
  have 2: "Transition ?cs (lookup ?cs 0) 0 0 = None"
    using 1 by (subst Transition.simps) (simp add: cyclic_super_machine_def sm_defs)
  have "provides ?cs 0 0 2" "provides ?cs 0 0 3"
    unfolding provides_def
    by (subst answer_eq, simp add: cyclic_super_machine_def sm_defs)+
  moreover have "Fire cyclic_super_machine 0 0 = None"
    using 2 by (simp add: Fire_def CanFire_def cyclic_super_machine_def sm_defs)
  moreover have "satisfied 0 0 (lookup ?cs 0) = []"
    by (simp add: cyclic_super_machine_def sm_defs)
  ultimately show ?thesis by simp
qed

text \<open>
  C2, amended. If two or more transitions of the current state for the trigger have a
  true guard, \<^verbatim>\<open>Fire\<close> throws \<^verbatim>\<open>MultipleTriggerException\<close> and leaves the machine and
  the memory as they were. Likewise if no guard of the current state holds, more than
  one of its super-states provides a transition for the trigger, and the question put
  to each super-state comes back (as it does when the super-state relation is
  acyclic): then too \<^verbatim>\<open>Fire\<close> throws \<^verbatim>\<open>MultipleTriggerException\<close>.
\<close>

theorem Fire_ambiguous:
  "(stateConfigurations m (stateAccessor m w) = Some c \<and> 2 \<le> length (satisfied w t c) \<longrightarrow>
      Fire m t w = Some (Inl MultipleTriggerException, m, w)) \<and>
   (stateConfigurations m (stateAccessor m w) = Some c \<and> satisfied w t c = [] \<and>
    (\<forall>q \<in> set (superStates c). answer (stateConfigurations m) t w q \<noteq> None) \<and>
    2 \<le> length (filter (provides (stateConfigurations m) t w) (superStates c)) \<longrightarrow>
      (\<exists>cs'. Fire m t w =
         Some (Inl MultipleTriggerException, m\<lparr>stateConfigurations := cs'\<rparr>, w) \<and>
         same_lookups (stateConfigurations m) cs'))"
proof (intro conjI impI)
  assume "stateConfigurations m (stateAccessor m w) = Some c \<and> 2 \<le> length (satisfied w t c)"
  then show "Fire m t w = Some (Inl MultipleTriggerException, m, w)"
    by (simp add: Fire_def CanFire_def Transition_own_ambiguous)
next
  let ?cfgs = "stateConfigurations m"
  let ?s = "stateAccessor m w"
  assume A: "?cfgs ?s = Some c \<and> satisfied w t c = [] \<and>
    (\<forall>q \<in> set (superStates c). answer ?cfgs t w q \<noteq> None) \<and>
    2 \<le> length (filter (provides ?cfgs t w) (superStates c))"
  then have c: "?cfgs ?s = Some c" by simp
  have l: "lookup ?cfgs ?s = c" using c by (rule lookup_Some)
  have f: "filter (\<lambda>r. \<exists>d. r = Some (Inr (Some d))) (map (answer ?cfgs t w) (superStates c)) =
        map (answer ?cfgs t w) (filter (provides ?cfgs t w) (superStates c))"
    unfolding filter_map comp_def provides_def
    by (rule arg_cong [where f = "map _"], rule filter_cong)
       (auto split: option.splits sum.splits)
  have "combine None (map (answer ?cfgs t w) (superStates c)) = Some (Inl MultipleTriggerException)"
  proof (rule combine_ambiguous)
    show "\<forall>r\<in>set (map (answer ?cfgs t w) (superStates c)). r \<noteq> None" using A by auto
    show "\<forall>r\<in>set (map (answer ?cfgs t w) (superStates c)).
            \<forall>e. r = Some (Inl e) \<longrightarrow> e = MultipleTriggerException"
      by (auto dest: answer_only_Multiple)
    show "(if (None :: 'a option) = None then 2 else 1)
            \<le> length (filter (\<lambda>r. \<exists>d. r = Some (Inr (Some d)))
                 (map (answer ?cfgs t w) (superStates c)))"
      using A by (simp add: f)
  qed
  with A have "answer ?cfgs t w ?s = Some (Inl MultipleTriggerException)"
    by (subst answer_eq) (simp add: l)
  with Fire_cases [OF c, of t] show "\<exists>cs'. Fire m t w =
         Some (Inl MultipleTriggerException, m\<lparr>stateConfigurations := cs'\<rparr>, w) \<and>
         same_lookups ?cfgs cs'" by blast
qed


theorem Fire_ambiguous_witness:
  "map_option (\<lambda>x. (fst x, snd (snd x))) (Fire logged_machine 2 (2, [])) =
     Some (Inl MultipleTriggerException, (2, [])) \<and>
   map_option (\<lambda>x. (fst x, snd (snd x))) (Fire logged_machine 0 (5, [])) =
     Some (Inl MultipleTriggerException, (5, []))"
proof -
  let ?m = logged_machine
  let ?cs = "stateConfigurations logged_machine"
  have sa: "stateAccessor ?m (s, l) = s" for s l
    by (simp add: logged_machine_def)
  have c2: "?cs (stateAccessor ?m (2, [])) = Some (lookup ?cs 2)"
    and c5: "?cs (stateAccessor ?m (5, [])) = Some (lookup ?cs 5)"
    by (simp_all add: sa logged_configured)
  have s2: "2 \<le> length (satisfied (2, []) 2 (lookup ?cs 2))"
    and s5: "satisfied (5, []) 0 (lookup ?cs 5) = []"
    by (simp_all add: logged_lookup satisfied_def equal_range_def CanTransition_def
          DefaultPredicate_def)
  have a1: "answer ?cs 0 (5, []) 1 = Some (Inr (Some 3))"
    and a2: "answer ?cs 0 (5, []) 2 = Some (Inr (Some 4))"
    by (subst answer_eq,
        simp add: logged_lookup satisfied_def equal_range_def CanTransition_def
          DefaultPredicate_def)+
  have r: "\<forall>q \<in> set (superStates (lookup ?cs 5)). answer ?cs 0 (5, []) q \<noteq> None"
    using a1 a2 by (simp add: logged_lookup)
  have p: "2 \<le> length (filter (provides ?cs 0 (5, [])) (superStates (lookup ?cs 5)))"
    using a1 a2 by (simp add: logged_lookup provides_def)
  have "Fire ?m 2 (2, []) = Some (Inl MultipleTriggerException, ?m, (2, []))"
    using Fire_ambiguous [where m = ?m and w = "(2, [])" and t = 2 and c = "lookup ?cs 2",
        THEN conjunct1] c2 s2
    by blast
  moreover have "\<exists>cs'. Fire ?m 0 (5, []) =
       Some (Inl MultipleTriggerException, ?m\<lparr>stateConfigurations := cs'\<rparr>, (5, []))"
    using Fire_ambiguous [where m = ?m and w = "(5, [])" and t = 0 and c = "lookup ?cs 5",
        THEN conjunct2] c5 s5 r p
    by blast
  ultimately show ?thesis by auto
qed

text \<open>
  C3. Let the current state \<open>s\<close>, with configuration \<open>c\<close>, be a sub-state. When \<open>c\<close>
  declares a transition for the trigger whose guard is satisfied (one such
  transition: two of them are the ambiguity of C2), that transition is taken,
  whatever the super-states are and declare: \<^verbatim>\<open>CanFire\<close> answers with its destination
  and leaves the configurations untouched, the super-states are not asked. When \<open>c\<close>
  declares no satisfied transition and the super-state \<open>p\<close> declares one (\<open>p\<close> being
  the one super-state of \<open>s\<close> that does not answer that it has none), the transition
  of \<open>p\<close> is taken: the exit handler of \<open>s\<close>, the mutator and the entry handler run for
  the destination that \<open>p\<close> declares.
\<close>

theorem substate_shadows_superstate:
  "(stateConfigurations m (stateAccessor m w) = Some c \<and> satisfied w t c = [i] \<longrightarrow>
      CanFire m t w = Some (Inr (Some (destination i)), stateConfigurations m) \<and>
      (\<exists>cs'. Fire m t w =
         Some (Inr (), m\<lparr>stateConfigurations := cs'\<rparr>,
           OnStateEntered (lookup (stateConfigurations m) (destination i))
             (stateMutator m (destination i) (OnStateExited c w))) \<and>
         same_lookups (stateConfigurations m) cs')) \<and>
   (stateConfigurations m (stateAccessor m w) = Some c \<and> satisfied w t c = [] \<and>
    filter (\<lambda>q. \<not> declines (stateConfigurations m) t w q) (superStates c) = [p] \<and>
    satisfied w t (lookup (stateConfigurations m) p) = [j] \<longrightarrow>
      (\<exists>cs'. Fire m t w =
         Some (Inr (), m\<lparr>stateConfigurations := cs'\<rparr>,
           OnStateEntered (lookup (stateConfigurations m) (destination j))
             (stateMutator m (destination j) (OnStateExited c w))) \<and>
         same_lookups (stateConfigurations m) cs'))"
proof (intro conjI impI)
  let ?cfgs = "stateConfigurations m"
  let ?s = "stateAccessor m w"
  assume A: "?cfgs ?s = Some c \<and> satisfied w t c = [i]"
  then have c: "?cfgs ?s = Some c" by simp
  have l: "lookup ?cfgs ?s = c" using c by (rule lookup_Some)
  show "CanFire m t w = Some (Inr (Some (destination i)), ?cfgs)"
    using A by (simp add: CanFire_def Transition_own)
  have "answer ?cfgs t w ?s = Some (Inr (Some (destination i)))"
    using A by (subst answer_eq) (simp add: l)
  with Fire_cases [OF c, of t] show "\<exists>cs'. Fire m t w =
         Some (Inr (), m\<lparr>stateConfigurations := cs'\<rparr>,
           OnStateEntered (lookup ?cfgs (destination i))
             (stateMutator m (destination i) (OnStateExited c w))) \<and>
         same_lookups ?cfgs cs'" by blast
next
  let ?cfgs = "stateConfigurations m"
  let ?s = "stateAccessor m w"
  assume A: "?cfgs ?s = Some c \<and> satisfied w t c = [] \<and>
    filter (\<lambda>q. \<not> declines ?cfgs t w q) (superStates c) = [p] \<and>
    satisfied w t (lookup ?cfgs p) = [j]"
  then have c: "?cfgs ?s = Some c" by simp
  have l: "lookup ?cfgs ?s = c" using c by (rule lookup_Some)
  have p: "answer ?cfgs t w p = Some (Inr (Some (destination j)))"
    using A by (subst answer_eq) simp
  have "combine None (map (answer ?cfgs t w) (superStates c)) = Some (Inr (Some (destination j)))"
    using A p by (intro combine_single [where p = p]) (simp_all add: declines_def)
  with A have "answer ?cfgs t w ?s = Some (Inr (Some (destination j)))"
    by (subst answer_eq) (simp add: l)
  with Fire_cases [OF c, of t] show "\<exists>cs'. Fire m t w =
         Some (Inr (), m\<lparr>stateConfigurations := cs'\<rparr>,
           OnStateEntered (lookup ?cfgs (destination j))
             (stateMutator m (destination j) (OnStateExited c w))) \<and>
         same_lookups ?cfgs cs'" by blast
qed

theorem substate_shadows_superstate_witness:
  "map_option (\<lambda>x. (fst x, snd (snd x))) (Fire logged_machine 0 (1, [])) =
     Some (Inr (), (3, [''exit 1'', ''set'', ''enter 3''])) \<and>
   map_option fst (CanFire logged_machine 0 (1, [])) = Some (Inr (Some 3)) \<and>
   map_option fst (CanFire (logged_machine\<lparr>stateAccessor := \<lambda>w. 2\<rparr>) 0 (1, [])) =
     Some (Inr (Some 4)) \<and>
   map_option (\<lambda>x. (fst x, snd (snd x))) (Fire logged_machine 1 (1, [])) =
     Some (Inr (), (3, [''exit 1'', ''set'', ''enter 3'']))"
proof -
  let ?m = logged_machine
  let ?cs = "stateConfigurations logged_machine"
  let ?m2 = "logged_machine\<lparr>stateAccessor := \<lambda>w. 2\<rparr>"
  have sa: "stateAccessor ?m (s, l) = s" and sm: "stateMutator ?m d (s, l) = (d, l @ [''set''])"
    for s d l
    by (simp_all add: logged_machine_def)
  have c1: "?cs (stateAccessor ?m (1, [])) = Some (lookup ?cs 1)"
    by (simp add: sa logged_configured)
  have c2: "stateConfigurations ?m2 (stateAccessor ?m2 (1, [])) = Some (lookup ?cs 2)"
    by (simp add: logged_configured)
  have s0: "satisfied (1, []) 0 (lookup ?cs 1) = [\<lparr>destination = 3, predicate = DefaultPredicate\<rparr>]"
    and s1: "satisfied (1, []) 1 (lookup ?cs 1) = []"
    and t0: "satisfied (1, []) 0 (lookup ?cs 2) = [\<lparr>destination = 4, predicate = DefaultPredicate\<rparr>]"
    and t1: "satisfied (1, []) 1 (lookup ?cs 2) = [\<lparr>destination = 3, predicate = DefaultPredicate\<rparr>]"
    by (simp_all add: logged_lookup satisfied_def equal_range_def CanTransition_def
          DefaultPredicate_def)
  have a2: "answer ?cs 1 (1, []) 2 = Some (Inr (Some 3))"
    by (subst answer_eq) (simp add: logged_lookup satisfied_def equal_range_def CanTransition_def
          DefaultPredicate_def)
  have f1: "filter (\<lambda>q. \<not> declines ?cs 1 (1, []) q) (superStates (lookup ?cs 1)) = [2]"
    using a2 by (simp add: logged_lookup declines_def)
  have "CanFire ?m 0 (1, []) = Some (Inr (Some 3), ?cs) \<and>
    (\<exists>cs'. Fire ?m 0 (1, []) =
       Some (Inr (), ?m\<lparr>stateConfigurations := cs'\<rparr>, (3, [''exit 1'', ''set'', ''enter 3''])))"
    using substate_shadows_superstate
      [where m = ?m and w = "(1, [])" and t = 0 and c = "lookup ?cs 1"
         and i = "\<lparr>destination = 3, predicate = DefaultPredicate\<rparr>", THEN conjunct1]
      c1 s0
    by (auto simp: sm logged_lookup OnStateEntered_def OnStateExited_def invoke_def)
  moreover have "CanFire ?m2 0 (1, []) = Some (Inr (Some 4), ?cs)"
    using substate_shadows_superstate
      [where m = ?m2 and w = "(1, [])" and t = 0 and c = "lookup ?cs 2"
         and i = "\<lparr>destination = 4, predicate = DefaultPredicate\<rparr>", THEN conjunct1]
      c2 t0
    by auto
  moreover have "\<exists>cs'. Fire ?m 1 (1, []) =
       Some (Inr (), ?m\<lparr>stateConfigurations := cs'\<rparr>, (3, [''exit 1'', ''set'', ''enter 3'']))"
    using substate_shadows_superstate
      [where m = ?m and w = "(1, [])" and t = 1 and c = "lookup ?cs 1" and p = 2
         and j = "\<lparr>destination = 3, predicate = DefaultPredicate\<rparr>", THEN conjunct2]
      c1 s1 f1 t1
    by (auto simp: sm logged_lookup OnStateEntered_def OnStateExited_def invoke_def)
  ultimately show ?thesis by auto
qed

section \<open>The TCP client\<close>

lemma resolve_eq:
  "resolve cs s t = (case cs s of None \<Rightarrow> Some (Inr None) | Some c \<Rightarrow> answer cs t () s)"
  by (auto simp: resolve_def CanFire_def answer_def lookup_Some split: option.splits)

lemmas tcp_defs = tcp_configurations_def sm_defs less_eq_tcp_State_def less_tcp_State_def

lemma tcp_resolve:
  "resolve tcp_configurations s t =
     Some (Inr (case (s, t) of
        (Tcp_State_Idle, Tcp_Trigger_Connected) \<Rightarrow> Some Tcp_State_Connected
      | (Tcp_State_Idle, Tcp_Trigger_Connect) \<Rightarrow> Some Tcp_State_Connecting
      | (Tcp_State_Connecting, Tcp_Trigger_Connected) \<Rightarrow> Some Tcp_State_Connected
      | (Tcp_State_Connecting, Tcp_Trigger_Disconnected) \<Rightarrow> Some Tcp_State_Disconnected
      | (Tcp_State_Connecting, Tcp_Trigger_Timeout) \<Rightarrow> Some Tcp_State_Disconnected
      | (Tcp_State_Connected, Tcp_Trigger_Send) \<Rightarrow> Some Tcp_State_Sending
      | (Tcp_State_Connected, Tcp_Trigger_Disconnected) \<Rightarrow> Some Tcp_State_Disconnected
      | (Tcp_State_Sending, Tcp_Trigger_Send) \<Rightarrow> Some Tcp_State_Sending
      | (Tcp_State_Sending, Tcp_Trigger_Disconnected) \<Rightarrow> Some Tcp_State_Disconnected
      | _ \<Rightarrow> None))"
  apply (cases s; cases t)
  apply (simp_all add: resolve_eq tcp_configurations_def)
  apply (subst answer_eq, simp add: tcp_defs, (subst answer_eq, simp add: tcp_defs)?)+
  done


lemma tcp_Send_loop:
  assumes "tcp_state c = Tcp_State_Connected \<or> tcp_state c = Tcp_State_Sending"
    and "None \<notin> set (window (socket c))"
  shows "\<exists>k. tcp_Fire Tcp_Trigger_Send c =
     Some (Inr (), c\<lparr>tcp_state := Tcp_State_Sending, sendBuffer := [],
        socket := (socket c)\<lparr>wire := wire (socket c) @ sendBuffer c,
                               window := drop k (window (socket c))\<rparr>\<rparr>)"
  using assms
proof (induction "window (socket c)" arbitrary: c)
  case Nil
  then show ?case
    by (subst tcp_Fire.simps) (auto simp: tcp_resolve Sending_OnEntry_def Socket_Send_def)
next
  case (Cons x xs)
  from Cons.prems Cons.hyps(2) obtain n where x: "x = Some n"
    by (cases x) (auto simp: Cons.hyps(2) [symmetric])
  let ?s' = "(socket c)\<lparr>wire := wire (socket c) @ take n (sendBuffer c), window := xs\<rparr>"
  let ?c' = "c\<lparr>tcp_state := Tcp_State_Sending, socket := ?s',
                sendBuffer := drop (min n (length (sendBuffer c))) (sendBuffer c)\<rparr>"
  have w: "window (socket c) = Some n # xs" using Cons.hyps(2) x by simp
  show ?case
  proof (cases "drop (min n (length (sendBuffer c))) (sendBuffer c) = []")
    case True
    then have t: "take n (sendBuffer c) = sendBuffer c" by (auto simp: min_def split: if_splits)
    from True have "tcp_Fire Tcp_Trigger_Send c = Some (Inr (), ?c')"
      using Cons.prems(1) w
      by (subst tcp_Fire.simps) (auto simp: tcp_resolve Sending_OnEntry_def Socket_Send_def)
    moreover have "?c' = c\<lparr>tcp_state := Tcp_State_Sending, sendBuffer := [],
        socket := (socket c)\<lparr>wire := wire (socket c) @ sendBuffer c,
                               window := drop 1 (window (socket c))\<rparr>\<rparr>"
      using True w t by simp
    ultimately show ?thesis by metis
  next
    case False
    have step: "tcp_Fire Tcp_Trigger_Send c = tcp_Fire Tcp_Trigger_Send ?c'"
      using Cons.prems(1) w False
      by (subst tcp_Fire.simps) (auto simp: tcp_resolve Sending_OnEntry_def Socket_Send_def)
    have "xs = window (socket ?c')" by simp
    from Cons.hyps(1) [OF this] Cons.prems(2) w
    obtain k where k: "tcp_Fire Tcp_Trigger_Send ?c' =
      Some (Inr (), ?c'\<lparr>tcp_state := Tcp_State_Sending, sendBuffer := [],
        socket := (socket ?c')\<lparr>wire := wire (socket ?c') @ sendBuffer ?c',
                               window := drop k (window (socket ?c'))\<rparr>\<rparr>)"
      by auto
    have "take n (sendBuffer c) @ drop (min n (length (sendBuffer c))) (sendBuffer c) = sendBuffer c"
      by (simp add: min_def)
    then have "?c'\<lparr>tcp_state := Tcp_State_Sending, sendBuffer := [],
        socket := (socket ?c')\<lparr>wire := wire (socket ?c') @ sendBuffer ?c',
                               window := drop k (window (socket ?c'))\<rparr>\<rparr> =
      c\<lparr>tcp_state := Tcp_State_Sending, sendBuffer := [],
        socket := (socket c)\<lparr>wire := wire (socket c) @ sendBuffer c,
                               window := drop (Suc k) (window (socket c))\<rparr>\<rparr>"
      using w by simp
    with step k show ?thesis by metis
  qed
qed


text \<open>
  C10. Destroying a client whose machine is in the state Connected or Connecting fires
  the trigger Disconnected from the destructor: the machine ends in the state
  Disconnected, and the event \<^verbatim>\<open>ClientDisconnected\<close> is raised exactly once (the events
  raised are those raised before, and then this one). Destroying a client that is
  Idle or Disconnected raises no event and changes nothing.
\<close>

theorem destructor_fires_Disconnected:
  "(tcp_state c = Tcp_State_Connected \<or> tcp_state c = Tcp_State_Connecting \<longrightarrow>
      TcpClient_destroy c =
        Some (Inr (), c\<lparr>tcp_state := Tcp_State_Disconnected,
                         tcp_raised := tcp_raised c @ [ClientDisconnected]\<rparr>)) \<and>
   (tcp_state c = Tcp_State_Idle \<or> tcp_state c = Tcp_State_Disconnected \<longrightarrow>
      TcpClient_destroy c = Some (Inr (), c))"
  unfolding TcpClient_destroy_def
  by (subst tcp_Fire.simps) (auto simp: tcp_resolve Disconnected_OnEntry_def)


theorem destructor_fires_Disconnected_witness:
  "map_option (\<lambda>x. (fst x, tcp_state (snd x), tcp_raised (snd x)))
     (TcpClient_destroy (a_client Tcp_State_Connected)) =
     Some (Inr (), Tcp_State_Disconnected, [ClientDisconnected]) \<and>
   map_option (\<lambda>x. (fst x, tcp_state (snd x), tcp_raised (snd x)))
     (TcpClient_destroy (a_client Tcp_State_Connecting)) =
     Some (Inr (), Tcp_State_Disconnected, [ClientDisconnected]) \<and>
   map_option (\<lambda>x. (fst x, tcp_state (snd x), tcp_raised (snd x)))
     (TcpClient_destroy (a_client Tcp_State_Idle)) = Some (Inr (), Tcp_State_Idle, []) \<and>
   map_option (\<lambda>x. (fst x, tcp_state (snd x), tcp_raised (snd x)))
     (TcpClient_destroy (a_client Tcp_State_Disconnected)) =
     Some (Inr (), Tcp_State_Disconnected, [])"
  using destructor_fires_Disconnected [of "a_client Tcp_State_Connected"]
    destructor_fires_Disconnected [of "a_client Tcp_State_Connecting"]
    destructor_fires_Disconnected [of "a_client Tcp_State_Idle"]
    destructor_fires_Disconnected [of "a_client Tcp_State_Disconnected"]
  by (simp add: a_client_def)


section \<open>The HTTP client\<close>

lemma equal_range_distinct:
  "distinct (map fst xs) \<Longrightarrow>
   map snd (filter (\<lambda>i. fst i = t) xs) = (case map_of xs t of None \<Rightarrow> [] | Some v \<Rightarrow> [v])"
proof (induction xs)
  case Nil
  then show ?case by simp
next
  case (Cons x xs)
  from Cons.prems have "fst x \<notin> fst ` set xs" by simp
  then have "fst x = t \<Longrightarrow> filter (\<lambda>i. fst i = t) xs = []"
    unfolding filter_empty_conv by (metis image_eqI)
  moreover have "fst x = t \<Longrightarrow> map_of (x # xs) t = Some (snd x)" by (cases x) simp
  moreover have "fst x \<noteq> t \<Longrightarrow> map_of (x # xs) t = map_of xs t" by (cases x) simp
  ultimately show ?case using Cons by (cases "fst x = t") simp_all
qed

lemma resolve_flat:
  assumes "cs s = Some c" and "superStates c = []"
    and "\<forall>i \<in> set (triggerConfigurations c). predicate (snd i) ()"
    and "distinct (map fst (triggerConfigurations c))"
  shows "resolve cs s t = Some (Inr (map_option destination (map_of (triggerConfigurations c) t)))"
proof -
  have "filter (CanTransition ()) (equal_range t c) = equal_range t c"
    using assms(3) by (auto simp: equal_range_def CanTransition_def filter_id_conv)
  then have "satisfied () t c =
      (case map_of (triggerConfigurations c) t of None \<Rightarrow> [] | Some v \<Rightarrow> [v])"
    using equal_range_distinct [OF assms(4), of t] by (simp add: satisfied_def equal_range_def)
  then show ?thesis
    using assms(1,2)
    by (subst resolve_eq, simp, subst answer_eq) (simp add: lookup_Some split: option.splits)
qed

lemmas configured_defs = configured_def permit_def Permit_def DefaultPredicate_def
  empty_configuration_def

lemma http_resolve:
  "resolve http_configurations s t =
     Some (Inr (map_option destination
       (map_of (triggerConfigurations (lookup http_configurations s)) t)))"
proof -
  obtain c where c: "http_configurations s = Some c"
    by (cases s) (simp_all add: http_configurations_def)
  have l: "lookup http_configurations s = c" using c by (rule lookup_Some)
  have "superStates c = [] \<and> (\<forall>i \<in> set (triggerConfigurations c). predicate (snd i) ()) \<and>
     distinct (map fst (triggerConfigurations c))"
    using c by (cases s) (auto simp: http_configurations_def configured_defs)
  then show ?thesis
    using resolve_flat [where cs = http_configurations and s = s and c = c and t = t] c l
    by simp
qed

lemma http_table:
  "resolve http_configurations s t =
     Some (Inr (map_of
       (case s of
          Http_State_WaitForConnection \<Rightarrow>
           [(Http_Trigger_Continue, Http_State_WaitForConnection),
            (Http_Trigger_Break, Http_State_WaitForConnection),
            (Http_Trigger_Connected, Http_State_Connected)]
        | Http_State_Connected \<Rightarrow>
           [(Http_Trigger_Disconnect, Http_State_WaitForConnection),
            (Http_Trigger_RequestBegin, Http_State_RequestActionLine)]
        | Http_State_RequestActionLine \<Rightarrow>
           [(Http_Trigger_Disconnect, Http_State_WaitForConnection),
            (Http_Trigger_RequestHeader, Http_State_RequestHeaderLine),
            (Http_Trigger_RequestChunk, Http_State_RequestLastHeader)]
        | Http_State_RequestHeaderLine \<Rightarrow>
           [(Http_Trigger_Disconnect, Http_State_WaitForConnection),
            (Http_Trigger_RequestHeader, Http_State_RequestHeaderLine),
            (Http_Trigger_RequestChunk, Http_State_RequestLastHeader)]
        | Http_State_RequestLastHeader \<Rightarrow>
           [(Http_Trigger_Disconnect, Http_State_WaitForConnection),
            (Http_Trigger_Break, Http_State_RequestChunk)]
        | Http_State_RequestChunk \<Rightarrow>
           [(Http_Trigger_Disconnect, Http_State_WaitForConnection),
            (Http_Trigger_RequestChunk, Http_State_RequestChunk),
            (Http_Trigger_RequestEnd, Http_State_ResponseActionLine)]
        | Http_State_ResponseActionLine \<Rightarrow>
           [(Http_Trigger_Disconnect, Http_State_WaitForConnection),
            (Http_Trigger_Continue, Http_State_ResponseActionLine),
            (Http_Trigger_Break, Http_State_ResponseHeaderLine)]
        | Http_State_ResponseHeaderLine \<Rightarrow>
           [(Http_Trigger_Disconnect, Http_State_WaitForConnection),
            (Http_Trigger_Continue, Http_State_ResponseHeaderLine),
            (Http_Trigger_TransferEncodingChunked, Http_State_ResponseHeaderLineAndTransferEncodingChunked),
            (Http_Trigger_ContentLength, Http_State_ResponseHeaderLineAndContentLength),
            (Http_Trigger_ConnectionClose, Http_State_ResponseHeaderLineConnectionClose),
            (Http_Trigger_Break, Http_State_ResponseContent)]
        | Http_State_ResponseHeaderLineAndTransferEncodingChunked \<Rightarrow>
           [(Http_Trigger_Disconnect, Http_State_WaitForConnection),
            (Http_Trigger_Continue, Http_State_ResponseHeaderLineAndTransferEncodingChunked),
            (Http_Trigger_ConnectionClose, Http_State_ResponseHeaderLineAndTransferEncodingChunkedAndConnectionClose),
            (Http_Trigger_Break, Http_State_ResponseChunkSize)]
        | Http_State_ResponseHeaderLineAndContentLength \<Rightarrow>
           [(Http_Trigger_Disconnect, Http_State_WaitForConnection),
            (Http_Trigger_ConnectionClose, Http_State_ResponseHeaderLineAndContentLengthAndConnectionClose),
            (Http_Trigger_Continue, Http_State_ResponseHeaderLineAndContentLength),
            (Http_Trigger_Break, Http_State_ResponseContent)]
        | Http_State_ResponseHeaderLineConnectionClose \<Rightarrow>
           [(Http_Trigger_Disconnect, Http_State_WaitForConnection),
            (Http_Trigger_ContentLength, Http_State_ResponseHeaderLineAndContentLengthAndConnectionClose),
            (Http_Trigger_TransferEncodingChunked, Http_State_ResponseHeaderLineAndTransferEncodingChunkedAndConnectionClose),
            (Http_Trigger_Continue, Http_State_ResponseHeaderLineConnectionClose),
            (Http_Trigger_Break, Http_State_ResponseContentUntilClosed)]
        | Http_State_ResponseHeaderLineAndContentLengthAndConnectionClose \<Rightarrow>
           [(Http_Trigger_Disconnect, Http_State_WaitForConnection),
            (Http_Trigger_Continue, Http_State_ResponseHeaderLineAndContentLengthAndConnectionClose),
            (Http_Trigger_Break, Http_State_ResponseContentUntilClosed)]
        | Http_State_ResponseHeaderLineAndTransferEncodingChunkedAndConnectionClose \<Rightarrow>
           [(Http_Trigger_Disconnect, Http_State_WaitForConnection),
            (Http_Trigger_Continue, Http_State_ResponseHeaderLineAndTransferEncodingChunkedAndConnectionClose),
            (Http_Trigger_Break, Http_State_ResponseChunkSizeAndConnectionClose)]
        | Http_State_ResponseContentUntilClosed \<Rightarrow>
           [(Http_Trigger_Disconnect, Http_State_EndOfResponseContentUntilClosed),
            (Http_Trigger_Continue, Http_State_ResponseContentUntilClosed),
            (Http_Trigger_Break, Http_State_EndOfResponseContentUntilClosed)]
        | Http_State_ResponseContent \<Rightarrow>
           [(Http_Trigger_Disconnect, Http_State_WaitForConnection),
            (Http_Trigger_Continue, Http_State_ResponseContent),
            (Http_Trigger_Break, Http_State_EndOfResponse)]
        | Http_State_ResponseChunkSize \<Rightarrow>
           [(Http_Trigger_Disconnect, Http_State_WaitForConnection),
            (Http_Trigger_Continue, Http_State_ResponseChunkSize),
            (Http_Trigger_EndOfChunks, Http_State_EndOfResponse),
            (Http_Trigger_Break, Http_State_ResponseChunk)]
        | Http_State_ResponseChunkSizeAndConnectionClose \<Rightarrow>
           [(Http_Trigger_Disconnect, Http_State_WaitForConnection),
            (Http_Trigger_Continue, Http_State_ResponseChunkSizeAndConnectionClose),
            (Http_Trigger_EndOfChunks, Http_State_EndOfResponseContentUntilClosed),
            (Http_Trigger_Break, Http_State_ResponseChunkAndConnectionClose)]
        | Http_State_ResponseChunk \<Rightarrow>
           [(Http_Trigger_Disconnect, Http_State_WaitForConnection),
            (Http_Trigger_Continue, Http_State_ResponseChunk),
            (Http_Trigger_Break, Http_State_ResponseChunkSize)]
        | Http_State_ResponseChunkAndConnectionClose \<Rightarrow>
           [(Http_Trigger_Disconnect, Http_State_WaitForConnection),
            (Http_Trigger_Continue, Http_State_ResponseChunkAndConnectionClose),
            (Http_Trigger_Break, Http_State_ResponseChunkSizeAndConnectionClose)]
        | Http_State_EndOfResponseContentUntilClosed \<Rightarrow>
           [(Http_Trigger_Disconnect, Http_State_WaitForConnection),
            (Http_Trigger_Continue, Http_State_EndOfResponseContentUntilClosed),
            (Http_Trigger_Break, Http_State_WaitForDisconnect)]
        | Http_State_WaitForDisconnect \<Rightarrow>
           [(Http_Trigger_Disconnect, Http_State_WaitForConnection)]
        | Http_State_EndOfResponse \<Rightarrow>
           [(Http_Trigger_Disconnect, Http_State_WaitForConnection),
            (Http_Trigger_RequestBegin, Http_State_RequestActionLine)]) t))"
  unfolding http_resolve
  by (cases s) (simp_all add: lookup_def Configure_def http_configurations_def configured_defs)

lemmas http_eval = http_table raise_http_def CRLF_def find_str_def substr_def size_t_minus_def
  Convert_size_t_def Convert_int_def extract_number_def strip_sign_def strip_prefix_def
  isspace_def is_digit_def digit_value_def digits_value_def


text \<open>
  C4 says that the chunk-size state removes from the buffer the digits of the size
  and their line end and, for the size zero that ends the chunks, also exactly the
  last empty line, never bytes behind the end of the response. The handler does
  otherwise. It erases \<^verbatim>\<open>endOfSize + 2\<close> bytes for the size line, and for the size
  zero it erases \<^verbatim>\<open>endOfSize + 2\<close> bytes a second time, where the empty line has 2.
  A client waiting for a chunk size that receives \<^verbatim>\<open>0 CR LF CR LF\<close> followed by
  \<^verbatim>\<open>HTTP/1.1 200 OK CR LF\<close> ends the response and is left with a buffer that starts
  \<^verbatim>\<open>TTP/1.1\<close>: the first byte behind the response is gone.
\<close>

theorem ChunkSizeEntered_discards_a_byte_of_the_next_response:
  "OnDataReceived (''0'' @ CRLF @ CRLF @ ''HTTP/1.1 200 OK'' @ CRLF) chunk_size_client =
     Some (Inr (), chunk_size_client
       \<lparr>http_state := Http_State_EndOfResponse, buffer := ''TTP/1.1 200 OK'' @ CRLF,
        contentLength := 0, http_raised := [ResponseEnded]\<rparr>)"
  unfolding OnDataReceived_def chunk_size_client_def connected_client_def
  apply (subst http_Fire.simps)
  apply (simp add: http_eval ChunkSizeEntered_def)
  apply (subst http_Fire.simps)
  apply (simp add: http_eval EndEntered_def)
  done


lemma http_TcpClient_Send_ready:
  assumes "ready_to_send c w"
  shows "\<exists>c'. http_TcpClient_Send v c = Some (Inr (), c') \<and> ready_to_send c' (w @ v) \<and>
     http_state c' = http_state c \<and> buffer c' = buffer c \<and>
     contentLength c' = contentLength c \<and> http_raised c' = http_raised c"
proof -
  let ?t = "(tcp c)\<lparr>sendBuffer := sendBuffer (tcp c) @ v\<rparr>"
  from assms have "tcp_state ?t = Tcp_State_Connected \<or> tcp_state ?t = Tcp_State_Sending"
    and "None \<notin> set (window (socket ?t))"
    by (simp_all add: ready_to_send_def)
  from tcp_Send_loop [OF this] obtain k where
    "tcp_Fire Tcp_Trigger_Send ?t =
       Some (Inr (), ?t\<lparr>tcp_state := Tcp_State_Sending, sendBuffer := [],
          socket := (socket ?t)\<lparr>wire := wire (socket ?t) @ sendBuffer ?t,
                                  window := drop k (window (socket ?t))\<rparr>\<rparr>)"
    by blast
  with assms show ?thesis
    by (auto simp: http_TcpClient_Send_def TcpClient_Send_def ready_to_send_def
          dest: in_set_dropD)
qed

lemma Begin_ready:
  assumes "http_state c = Http_State_Connected \<or> http_state c = Http_State_EndOfResponse"
    and "ready_to_send c w"
  shows "\<exists>c'. Begin method path protocol c = Some (Inr (), c') \<and>
     ready_to_send c' (w @ method @ '' '' @ path @ '' '' @ protocol @ CRLF) \<and>
     http_state c' = Http_State_RequestActionLine \<and> buffer c' = buffer c"
proof -
  let ?c1 = "c\<lparr>http_state := Http_State_RequestActionLine\<rparr>"
  have f: "http_Fire Http_Trigger_RequestBegin c = Some (Inr (), ?c1)"
    using assms(1) by (subst http_Fire.simps) (auto simp: http_table)
  have "ready_to_send ?c1 w" using assms(2) by (simp add: ready_to_send_def)
  from http_TcpClient_Send_ready [OF this, of "method @ '' '' @ path @ '' '' @ protocol @ CRLF"]
  show ?thesis using f by (auto simp: Begin_def fire_then_send_def)
qed

lemma SendHeader_ready:
  assumes "http_state c = Http_State_RequestActionLine \<or> http_state c = Http_State_RequestHeaderLine"
    and "ready_to_send c w"
  shows "\<exists>c'. SendHeader key v c = Some (Inr (), c') \<and>
     ready_to_send c' (w @ key @ '': '' @ v @ CRLF) \<and>
     http_state c' = Http_State_RequestHeaderLine \<and> buffer c' = buffer c"
proof -
  let ?c1 = "c\<lparr>http_state := Http_State_RequestHeaderLine\<rparr>"
  have f: "http_Fire Http_Trigger_RequestHeader c = Some (Inr (), ?c1)"
    using assms(1) by (subst http_Fire.simps) (auto simp: http_table)
  have "ready_to_send ?c1 w" using assms(2) by (simp add: ready_to_send_def)
  from http_TcpClient_Send_ready [OF this, of "key @ '': '' @ v @ CRLF"]
  show ?thesis using f by (auto simp: SendHeader_def fire_then_send_def)
qed

lemma Fire_RequestChunk_ready:
  assumes "http_state c = Http_State_RequestActionLine \<or> http_state c = Http_State_RequestHeaderLine"
    and "ready_to_send c w"
  shows "\<exists>c'. http_Fire Http_Trigger_RequestChunk c = Some (Inr (), c') \<and>
     ready_to_send c' (w @ ''Transfer-Encoding: chunked'' @ CRLF @ CRLF) \<and>
     http_state c' = Http_State_RequestChunk \<and> buffer c' = buffer c"
proof -
  let ?c1 = "c\<lparr>http_state := Http_State_RequestLastHeader\<rparr>"
  have "ready_to_send ?c1 w" using assms(2) by (simp add: ready_to_send_def)
  from http_TcpClient_Send_ready [OF this, of "''Transfer-Encoding: chunked'' @ CRLF @ CRLF"]
  obtain c2 where c2: "http_TcpClient_Send (''Transfer-Encoding: chunked'' @ CRLF @ CRLF) ?c1 =
        Some (Inr (), c2)"
    "ready_to_send c2 (w @ ''Transfer-Encoding: chunked'' @ CRLF @ CRLF)"
    "http_state c2 = Http_State_RequestLastHeader" "buffer c2 = buffer c"
    by auto
  have 1: "http_Fire Http_Trigger_RequestChunk c = http_Fire Http_Trigger_Break c2"
    using assms(1) c2(1)
    by (subst http_Fire.simps) (auto simp: http_table OnLastHeaderEntered_def)
  have 2: "http_Fire Http_Trigger_Break c2 =
      Some (Inr (), c2\<lparr>http_state := Http_State_RequestChunk\<rparr>)"
    using c2(3) by (subst http_Fire.simps) (simp add: http_table)
  show ?thesis using 1 2 c2 by (simp add: ready_to_send_def)
qed

lemma Send_ready:
  assumes "http_state c = Http_State_RequestActionLine \<or> http_state c = Http_State_RequestHeaderLine"
    and "ready_to_send c w" and "data \<noteq> []"
  shows "\<exists>c'. Send data c = Some (Inr (), c') \<and>
     ready_to_send c' (w @ ''Transfer-Encoding: chunked'' @ CRLF @ CRLF @
        Format_x_CRLF (length data) @ data @ CRLF) \<and>
     http_state c' = Http_State_RequestChunk \<and> buffer c' = buffer c"
proof -
  from Fire_RequestChunk_ready [OF assms(1,2)] obtain c1 where
    c1: "http_Fire Http_Trigger_RequestChunk c = Some (Inr (), c1)"
      "ready_to_send c1 (w @ ''Transfer-Encoding: chunked'' @ CRLF @ CRLF)"
      "http_state c1 = Http_State_RequestChunk" "buffer c1 = buffer c"
    by auto
  from http_TcpClient_Send_ready [OF c1(2), of "Format_x_CRLF (length data) @ data @ CRLF"]
  show ?thesis using c1 assms(3) by (auto simp: Send_def fire_then_send_def)
qed

lemma End_ready:
  assumes "http_state c = Http_State_RequestChunk" and "ready_to_send c w" and "buffer c = []"
  shows "\<exists>c'. End c = Some (Inr (), c') \<and> ready_to_send c' (w @ ''0'' @ CRLF @ CRLF) \<and>
     http_state c' = Http_State_ResponseActionLine \<and> buffer c' = []"
proof -
  let ?c1 = "c\<lparr>http_state := Http_State_ResponseActionLine\<rparr>"
  have f: "http_Fire Http_Trigger_RequestEnd c = Some (Inr (), ?c1)"
    using assms(1,3)
    by (subst http_Fire.simps) (simp add: http_table ActionLineEntered_def find_str_def)
  have "ready_to_send ?c1 w" using assms(2) by (simp add: ready_to_send_def)
  from http_TcpClient_Send_ready [OF this, of "''0'' @ CRLF @ CRLF"]
  show ?thesis using f assms(3) by (auto simp: End_def fire_then_send_def)
qed

lemma to_hex_3: "Format_x_CRLF (length ''ABC'') = ''3'' @ CRLF"
  by (simp add: Format_x_CRLF_def to_hex.simps)


text \<open>
  C6. A connected client (its buffer empty, its socket connected and not failing,
  nothing waiting to be sent, \<open>w\<close> written so far) that is called with
  \<^verbatim>\<open>Begin("POST", "/", protocol)\<close>, \<^verbatim>\<open>SendHeader("Host", "h")\<close>, \<^verbatim>\<open>Send("ABC")\<close> and
  \<^verbatim>\<open>End()\<close> returns from all four, and has then written, behind \<open>w\<close>, exactly the action
  line, the header, \<^verbatim>\<open>Transfer-Encoding: chunked\<close> and an empty line, the chunk
  \<^verbatim>\<open>3 CR LF ABC CR LF\<close> and the last chunk \<^verbatim>\<open>0 CR LF CR LF\<close>, however the socket
  splits the writes. \<^verbatim>\<open>Send\<close> with an empty chunk is the firing of its trigger and
  nothing more: no size line, no chunk, no line end. In the state where chunks are
  sent it leaves the client as it is; in the two states before, what is written is
  the \<^verbatim>\<open>Transfer-Encoding\<close> header that starts the chunks, and nothing else.
\<close>

theorem chunked_request_bytes:
  "(http_state c = Http_State_Connected \<and> buffer c = [] \<and> ready_to_send c w \<longrightarrow>
      (\<exists>c'. and_then (and_then (and_then (Begin ''POST'' ''/'' protocol c)
                (SendHeader ''Host'' ''h'')) (Send ''ABC'')) End = Some (Inr (), c') \<and>
            ready_to_send c'
              (w @ ''POST / '' @ protocol @ CRLF @ ''Host: h'' @ CRLF @
               ''Transfer-Encoding: chunked'' @ CRLF @ CRLF @
               ''3'' @ CRLF @ ''ABC'' @ CRLF @ ''0'' @ CRLF @ CRLF))) \<and>
   Send [] c = http_Fire Http_Trigger_RequestChunk c \<and>
   (http_state c = Http_State_RequestChunk \<longrightarrow> Send [] c = Some (Inr (), c)) \<and>
   ((http_state c = Http_State_RequestActionLine \<or> http_state c = Http_State_RequestHeaderLine) \<and>
    ready_to_send c w \<longrightarrow>
      (\<exists>c'. Send [] c = Some (Inr (), c') \<and>
            ready_to_send c' (w @ ''Transfer-Encoding: chunked'' @ CRLF @ CRLF)))"
proof (intro conjI impI)
  assume A: "http_state c = Http_State_Connected \<and> buffer c = [] \<and> ready_to_send c w"
  from Begin_ready [of c w "''POST''" "''/''" protocol] A obtain c1 where
    c1: "Begin ''POST'' ''/'' protocol c = Some (Inr (), c1)"
      "ready_to_send c1 (w @ ''POST'' @ '' '' @ ''/'' @ '' '' @ protocol @ CRLF)"
      "http_state c1 = Http_State_RequestActionLine" "buffer c1 = []"
    by auto
  from SendHeader_ready [OF _ c1(2), of "''Host''" "''h''"] c1(3,4) obtain c2 where
    c2: "SendHeader ''Host'' ''h'' c1 = Some (Inr (), c2)"
      "ready_to_send c2 ((w @ ''POST'' @ '' '' @ ''/'' @ '' '' @ protocol @ CRLF) @
          ''Host'' @ '': '' @ ''h'' @ CRLF)"
      "http_state c2 = Http_State_RequestHeaderLine" "buffer c2 = []"
    by auto
  from Send_ready [OF _ c2(2), of "''ABC''"] c2(3,4) obtain c3 where
    c3: "Send ''ABC'' c2 = Some (Inr (), c3)"
      "ready_to_send c3 (((w @ ''POST'' @ '' '' @ ''/'' @ '' '' @ protocol @ CRLF) @
          ''Host'' @ '': '' @ ''h'' @ CRLF) @ ''Transfer-Encoding: chunked'' @ CRLF @ CRLF @
          Format_x_CRLF (length ''ABC'') @ ''ABC'' @ CRLF)"
      "http_state c3 = Http_State_RequestChunk" "buffer c3 = []"
    by auto
  from End_ready [OF c3(3) c3(2) c3(4)] obtain c4 where
    c4: "End c3 = Some (Inr (), c4)"
      "ready_to_send c4 ((((w @ ''POST'' @ '' '' @ ''/'' @ '' '' @ protocol @ CRLF) @
          ''Host'' @ '': '' @ ''h'' @ CRLF) @ ''Transfer-Encoding: chunked'' @ CRLF @ CRLF @
          Format_x_CRLF (length ''ABC'') @ ''ABC'' @ CRLF) @ ''0'' @ CRLF @ CRLF)"
    by auto
  have "and_then (and_then (and_then (Begin ''POST'' ''/'' protocol c)
                (SendHeader ''Host'' ''h'')) (Send ''ABC'')) End = Some (Inr (), c4)"
    using c1(1) c2(1) c3(1) c4(1) by (simp add: and_then_def)
  moreover have "ready_to_send c4
              (w @ ''POST / '' @ protocol @ CRLF @ ''Host: h'' @ CRLF @
               ''Transfer-Encoding: chunked'' @ CRLF @ CRLF @
               ''3'' @ CRLF @ ''ABC'' @ CRLF @ ''0'' @ CRLF @ CRLF)"
    using c4(2) unfolding to_hex_3 by simp
  ultimately show "\<exists>c'. and_then (and_then (and_then (Begin ''POST'' ''/'' protocol c)
                (SendHeader ''Host'' ''h'')) (Send ''ABC'')) End = Some (Inr (), c') \<and>
            ready_to_send c'
              (w @ ''POST / '' @ protocol @ CRLF @ ''Host: h'' @ CRLF @
               ''Transfer-Encoding: chunked'' @ CRLF @ CRLF @
               ''3'' @ CRLF @ ''ABC'' @ CRLF @ ''0'' @ CRLF @ CRLF)" by blast
next
  show e: "Send [] c = http_Fire Http_Trigger_RequestChunk c"
    by (auto simp: Send_def fire_then_send_def split: option.splits sum.splits)
  {
    assume "http_state c = Http_State_RequestChunk"
    then have "http_Fire Http_Trigger_RequestChunk c = Some (Inr (), c)"
      by (subst http_Fire.simps) (simp add: http_table)
    with e show "Send [] c = Some (Inr (), c)" by simp
  }
  {
    assume "(http_state c = Http_State_RequestActionLine \<or>
             http_state c = Http_State_RequestHeaderLine) \<and> ready_to_send c w"
    then show "\<exists>c'. Send [] c = Some (Inr (), c') \<and>
            ready_to_send c' (w @ ''Transfer-Encoding: chunked'' @ CRLF @ CRLF)"
      using Fire_RequestChunk_ready [of c w] e by auto
  }
qed


theorem chunked_request_bytes_witness:
  "map_option (\<lambda>x. (fst x, wire (socket (tcp (snd x)))))
     (and_then (and_then (and_then (Begin ''POST'' ''/'' ''HTTP/1.1'' connected_client)
        (SendHeader ''Host'' ''h'')) (Send ''ABC'')) End) =
     Some (Inr (), ''POST / HTTP/1.1'' @ CRLF @ ''Host: h'' @ CRLF @
             ''Transfer-Encoding: chunked'' @ CRLF @ CRLF @
             ''3'' @ CRLF @ ''ABC'' @ CRLF @ ''0'' @ CRLF @ CRLF) \<and>
   Send [] (connected_client\<lparr>http_state := Http_State_RequestChunk\<rparr>) =
     Some (Inr (), connected_client\<lparr>http_state := Http_State_RequestChunk\<rparr>) \<and>
   map_option (\<lambda>x. (fst x, wire (socket (tcp (snd x)))))
     (Send [] (connected_client\<lparr>http_state := Http_State_RequestHeaderLine\<rparr>)) =
     Some (Inr (), ''Transfer-Encoding: chunked'' @ CRLF @ CRLF)"
proof -
  have r: "ready_to_send (connected_client\<lparr>http_state := s\<rparr>) []" for s
    by (simp add: ready_to_send_def connected_client_def a_client_def)
  have r0: "ready_to_send connected_client []"
    by (simp add: ready_to_send_def connected_client_def a_client_def)
  have s0: "http_state connected_client = Http_State_Connected \<and> buffer connected_client = []"
    by (simp add: connected_client_def)
  from chunked_request_bytes [of connected_client "[]" "''HTTP/1.1''", THEN conjunct1] r0 s0
  have 1: "map_option (\<lambda>x. (fst x, wire (socket (tcp (snd x)))))
     (and_then (and_then (and_then (Begin ''POST'' ''/'' ''HTTP/1.1'' connected_client)
        (SendHeader ''Host'' ''h'')) (Send ''ABC'')) End) =
     Some (Inr (), ''POST / HTTP/1.1'' @ CRLF @ ''Host: h'' @ CRLF @
             ''Transfer-Encoding: chunked'' @ CRLF @ CRLF @
             ''3'' @ CRLF @ ''ABC'' @ CRLF @ ''0'' @ CRLF @ CRLF)"
    by (auto simp: ready_to_send_def)
  have h2: "http_state (connected_client\<lparr>http_state := Http_State_RequestChunk\<rparr>) =
      Http_State_RequestChunk" by simp
  from chunked_request_bytes
    [of "connected_client\<lparr>http_state := Http_State_RequestChunk\<rparr>" "[]" "[]"] h2
  have 2: "Send [] (connected_client\<lparr>http_state := Http_State_RequestChunk\<rparr>) =
     Some (Inr (), connected_client\<lparr>http_state := Http_State_RequestChunk\<rparr>)"
    by blast
  have h3: "http_state (connected_client\<lparr>http_state := Http_State_RequestHeaderLine\<rparr>) =
      Http_State_RequestHeaderLine" by simp
  from chunked_request_bytes
    [of "connected_client\<lparr>http_state := Http_State_RequestHeaderLine\<rparr>" "[]" "[]",
      THEN conjunct2, THEN conjunct2, THEN conjunct2]
    r [of Http_State_RequestHeaderLine] h3
  have 3: "map_option (\<lambda>x. (fst x, wire (socket (tcp (snd x)))))
     (Send [] (connected_client\<lparr>http_state := Http_State_RequestHeaderLine\<rparr>)) =
     Some (Inr (), ''Transfer-Encoding: chunked'' @ CRLF @ CRLF)"
    by (auto simp: ready_to_send_def)
  from 1 2 3 show ?thesis by blast
qed
section \<open>The progressive XML parser on a self-closed element followed by text\<close>

text \<open>
  The constructor of \<^verbatim>\<open>ProgressiveParser\<close> configures no super-state and no guard, and permits
  every trigger at most once per state, so the generic machine resolves a trigger by a plain
  lookup in the table of the current state.
\<close>

lemma xml_resolve:
  "resolve xml_configurations s t =
     Some (Inr (map_option destination
       (map_of (triggerConfigurations (lookup xml_configurations s)) t)))"
proof -
  obtain c where c: "xml_configurations s = Some c"
    by (cases s) (simp_all add: xml_configurations_def)
  have l: "lookup xml_configurations s = c" using c by (rule lookup_Some)
  have "superStates c = [] \<and> (\<forall>i \<in> set (triggerConfigurations c). predicate (snd i) ()) \<and>
     distinct (map fst (triggerConfigurations c))"
    using c by (cases s) (auto simp: xml_configurations_def configured_defs)
  then show ?thesis
    using resolve_flat [where cs = xml_configurations and s = s and c = c and t = t] c l
    by simp
qed

lemma xml_table:
  "resolve xml_configurations s t =
     Some (Inr (map_of
       (case s of
          Xml_State_OpenElement \<Rightarrow>
           [(Xml_Trigger_Append, Xml_State_OpenElement),
            (Xml_Trigger_OpenElementReceived, Xml_State_OptionalSlashOrQuestionAfterOpenElement)]
        | Xml_State_OptionalSlashOrQuestionAfterOpenElement \<Rightarrow>
           [(Xml_Trigger_Append, Xml_State_OptionalSlashOrQuestionAfterOpenElement),
            (Xml_Trigger_OptionalQuestionPresent, Xml_State_IgnoreDeclaration),
            (Xml_Trigger_OptionalSlashPresent, Xml_State_EndElement),
            (Xml_Trigger_OptionalSlashNotPresent, Xml_State_StartElement)]
        | Xml_State_IgnoreDeclaration \<Rightarrow>
           [(Xml_Trigger_Append, Xml_State_IgnoreDeclaration),
            (Xml_Trigger_DeclarationReceived, Xml_State_OpenElement)]
        | Xml_State_EndElement \<Rightarrow>
           [(Xml_Trigger_Append, Xml_State_EndElement),
            (Xml_Trigger_ElementNameReceived, Xml_State_OpenElement)]
        | Xml_State_StartElement \<Rightarrow>
           [(Xml_Trigger_Append, Xml_State_StartElement),
            (Xml_Trigger_ElementNameReceived, Xml_State_OptionalWhitespaceBeforeAttribute)]
        | Xml_State_OptionalWhitespaceBeforeAttribute \<Rightarrow>
           [(Xml_Trigger_Append, Xml_State_OptionalWhitespaceBeforeAttribute),
            (Xml_Trigger_WhitespaceReceived, Xml_State_OptionalAttribute)]
        | Xml_State_OptionalAttribute \<Rightarrow>
           [(Xml_Trigger_Append, Xml_State_OptionalAttribute),
            (Xml_Trigger_OptionalAttributePresent, Xml_State_AttributeName),
            (Xml_Trigger_OptionalAttributeNotPresent, Xml_State_OptionalSlashAfterAttributes)]
        | Xml_State_AttributeName \<Rightarrow>
           [(Xml_Trigger_Append, Xml_State_AttributeName),
            (Xml_Trigger_AttributeNameReceived, Xml_State_AttributeAssignment)]
        | Xml_State_AttributeAssignment \<Rightarrow>
           [(Xml_Trigger_Append, Xml_State_AttributeAssignment),
            (Xml_Trigger_AttributeAssignmentReceived, Xml_State_AttributeValueDetermineQuotes)]
        | Xml_State_AttributeValueDetermineQuotes \<Rightarrow>
           [(Xml_Trigger_Append, Xml_State_AttributeValueDetermineQuotes),
            (Xml_Trigger_SingleQuotesReceived, Xml_State_StartAttributeValueSingleQuotes),
            (Xml_Trigger_DoubleQuotesReceived, Xml_State_StartAttributeValueDoubleQuotes)]
        | Xml_State_StartAttributeValueSingleQuotes \<Rightarrow>
           [(Xml_Trigger_Append, Xml_State_StartAttributeValueSingleQuotes),
            (Xml_Trigger_AttributeValueReceived, Xml_State_EndAttributeValueSingleQuotes)]
        | Xml_State_StartAttributeValueDoubleQuotes \<Rightarrow>
           [(Xml_Trigger_Append, Xml_State_StartAttributeValueDoubleQuotes),
            (Xml_Trigger_AttributeValueReceived, Xml_State_EndAttributeValueDoubleQuotes)]
        | Xml_State_EndAttributeValueSingleQuotes \<Rightarrow>
           [(Xml_Trigger_Append, Xml_State_EndAttributeValueSingleQuotes),
            (Xml_Trigger_SingleQuotesReceived, Xml_State_OptionalWhitespaceBeforeAttribute)]
        | Xml_State_EndAttributeValueDoubleQuotes \<Rightarrow>
           [(Xml_Trigger_Append, Xml_State_EndAttributeValueDoubleQuotes),
            (Xml_Trigger_DoubleQuotesReceived, Xml_State_OptionalWhitespaceBeforeAttribute)]
        | Xml_State_OptionalSlashAfterAttributes \<Rightarrow>
           [(Xml_Trigger_Append, Xml_State_OptionalSlashAfterAttributes),
            (Xml_Trigger_OptionalSlashPresent, Xml_State_ImmediateEndElement),
            (Xml_Trigger_OptionalSlashNotPresent, Xml_State_CloseElement)]
        | Xml_State_ImmediateEndElement \<Rightarrow>
           [(Xml_Trigger_Append, Xml_State_ImmediateEndElement),
            (Xml_Trigger_ImmediateEndElementReceived, Xml_State_OpenElement)]
        | Xml_State_CloseElement \<Rightarrow>
           [(Xml_Trigger_Append, Xml_State_CloseElement),
            (Xml_Trigger_CloseElementReceived, Xml_State_OptionalOpenElement)]
        | Xml_State_OptionalOpenElement \<Rightarrow>
           [(Xml_Trigger_Append, Xml_State_OptionalOpenElement),
            (Xml_Trigger_OptionalOpenElementPresent, Xml_State_OpenElement),
            (Xml_Trigger_OptionalOpenElementNotPresent, Xml_State_ElementData)]
        | Xml_State_ElementData \<Rightarrow>
           [(Xml_Trigger_Append, Xml_State_ElementData),
            (Xml_Trigger_ElementDataReceived, Xml_State_OpenElement)]) t))"
  unfolding xml_resolve
  by (cases s) (simp_all add: lookup_def Configure_def xml_configurations_def configured_defs)

lemmas xml_handlers = awaits_char_def State_OpenElement_Entered_def
  State_OptionalSlashOrQuestionAfterOpenElement_Entered_def State_IgnoreDeclaration_Entered_def
  State_EndElement_Entered_def State_StartElement_Entered_def
  State_OptionalWhitespaceBeforeAttribute_Entered_def State_OptionalAttribute_Entered_def
  State_AttributeName_Entered_def State_AttributeAssignment_Entered_def
  State_AttributeValueDetermineQuotes_Entered_def attribute_value_until_def
  State_StartAttributeValueSingleQuotes_Entered_def
  State_StartAttributeValueDoubleQuotes_Entered_def
  State_EndAttributeValueSingleQuotes_Entered_def State_EndAttributeValueDoubleQuotes_Entered_def
  State_OptionalSlashAfterAttributes_Entered_def State_ImmediateEndElement_Entered_def
  State_CloseElement_Entered_def State_OptionalOpenElement_Entered_def
  State_ElementData_Entered_def raise_named_def raise_xml_def Split_def find_str_def substr_def
  size_t_minus_def Unescape_def Replace_def


text \<open>
  \<^term>\<open>fed k\<close> is the parser after the first \<open>k\<close> bytes of the document arrived in one piece.
  The parser keeps what it cannot yet use in its buffer, so feeding \<open>j\<close> further bytes to
  \<^term>\<open>fed k\<close> gives \<^term>\<open>fed (k + j)\<close>: the cut points of the input do not matter.  The
  document has 25 bytes, so this is checked for each of the 351 pairs of a position and a length.
\<close>

lemma fed_values:
  "fed 0 =
     \<lparr>xml_state = Xml_State_OpenElement, xml_buffer = [],
        elementNamespaceAndName = [],
        xml_raised = []\<rparr>"
  "fed 1 =
     \<lparr>xml_state = Xml_State_OptionalSlashOrQuestionAfterOpenElement, xml_buffer = [],
        elementNamespaceAndName = [],
        xml_raised = []\<rparr>"
  "fed 2 =
     \<lparr>xml_state = Xml_State_StartElement, xml_buffer = ''a'',
        elementNamespaceAndName = [],
        xml_raised = []\<rparr>"
  "fed 3 =
     \<lparr>xml_state = Xml_State_StartElement, xml_buffer = ''a:'',
        elementNamespaceAndName = [],
        xml_raised = []\<rparr>"
  "fed 4 =
     \<lparr>xml_state = Xml_State_StartElement, xml_buffer = ''a:b'',
        elementNamespaceAndName = [],
        xml_raised = []\<rparr>"
  "fed 5 =
     \<lparr>xml_state = Xml_State_OptionalWhitespaceBeforeAttribute, xml_buffer = '' '',
        elementNamespaceAndName = [''a'', ''b''],
        xml_raised = [StartElementReceived ''a'' ''b'']\<rparr>"
  "fed 6 =
     \<lparr>xml_state = Xml_State_AttributeName, xml_buffer = ''x'',
        elementNamespaceAndName = [''a'', ''b''],
        xml_raised = [StartElementReceived ''a'' ''b'']\<rparr>"
  "fed 7 =
     \<lparr>xml_state = Xml_State_AttributeValueDetermineQuotes, xml_buffer = [],
        elementNamespaceAndName = [''a'', ''b''],
        xml_raised = [StartElementReceived ''a'' ''b'',
          AttributeNameReceived [] ''x'']\<rparr>"
  "fed 8 =
     \<lparr>xml_state = Xml_State_StartAttributeValueSingleQuotes, xml_buffer = [],
        elementNamespaceAndName = [''a'', ''b''],
        xml_raised = [StartElementReceived ''a'' ''b'',
          AttributeNameReceived [] ''x'']\<rparr>"
  "fed 9 =
     \<lparr>xml_state = Xml_State_StartAttributeValueSingleQuotes, xml_buffer = ''1'',
        elementNamespaceAndName = [''a'', ''b''],
        xml_raised = [StartElementReceived ''a'' ''b'',
          AttributeNameReceived [] ''x'']\<rparr>"
  "fed 10 =
     \<lparr>xml_state = Xml_State_OptionalWhitespaceBeforeAttribute, xml_buffer = [],
        elementNamespaceAndName = [''a'', ''b''],
        xml_raised = [StartElementReceived ''a'' ''b'',
          AttributeNameReceived [] ''x'',
          AttributeValueReceived ''1'']\<rparr>"
  "fed 11 =
     \<lparr>xml_state = Xml_State_OptionalOpenElement, xml_buffer = [],
        elementNamespaceAndName = [''a'', ''b''],
        xml_raised = [StartElementReceived ''a'' ''b'',
          AttributeNameReceived [] ''x'',
          AttributeValueReceived ''1'']\<rparr>"
  "fed 12 =
     \<lparr>xml_state = Xml_State_OptionalSlashOrQuestionAfterOpenElement, xml_buffer = [],
        elementNamespaceAndName = [''a'', ''b''],
        xml_raised = [StartElementReceived ''a'' ''b'',
          AttributeNameReceived [] ''x'',
          AttributeValueReceived ''1'']\<rparr>"
  "fed 13 =
     \<lparr>xml_state = Xml_State_StartElement, xml_buffer = ''c'',
        elementNamespaceAndName = [''a'', ''b''],
        xml_raised = [StartElementReceived ''a'' ''b'',
          AttributeNameReceived [] ''x'',
          AttributeValueReceived ''1'']\<rparr>"
  "fed 14 =
     \<lparr>xml_state = Xml_State_ImmediateEndElement, xml_buffer = ''/'',
        elementNamespaceAndName = [''c''],
        xml_raised = [StartElementReceived ''a'' ''b'',
          AttributeNameReceived [] ''x'',
          AttributeValueReceived ''1'',
          StartElementReceived [] ''c'']\<rparr>"
  "fed 15 =
     \<lparr>xml_state = Xml_State_OpenElement, xml_buffer = [],
        elementNamespaceAndName = [''c''],
        xml_raised = [StartElementReceived ''a'' ''b'',
          AttributeNameReceived [] ''x'',
          AttributeValueReceived ''1'',
          StartElementReceived [] ''c'',
          EndElementReceived [] ''c'']\<rparr>"
  "fed 16 =
     \<lparr>xml_state = Xml_State_OpenElement, xml_buffer = ''t'',
        elementNamespaceAndName = [''c''],
        xml_raised = [StartElementReceived ''a'' ''b'',
          AttributeNameReceived [] ''x'',
          AttributeValueReceived ''1'',
          StartElementReceived [] ''c'',
          EndElementReceived [] ''c'']\<rparr>"
  "fed 17 =
     \<lparr>xml_state = Xml_State_OpenElement, xml_buffer = ''te'',
        elementNamespaceAndName = [''c''],
        xml_raised = [StartElementReceived ''a'' ''b'',
          AttributeNameReceived [] ''x'',
          AttributeValueReceived ''1'',
          StartElementReceived [] ''c'',
          EndElementReceived [] ''c'']\<rparr>"
  "fed 18 =
     \<lparr>xml_state = Xml_State_OpenElement, xml_buffer = ''tex'',
        elementNamespaceAndName = [''c''],
        xml_raised = [StartElementReceived ''a'' ''b'',
          AttributeNameReceived [] ''x'',
          AttributeValueReceived ''1'',
          StartElementReceived [] ''c'',
          EndElementReceived [] ''c'']\<rparr>"
  "fed 19 =
     \<lparr>xml_state = Xml_State_OpenElement, xml_buffer = ''text'',
        elementNamespaceAndName = [''c''],
        xml_raised = [StartElementReceived ''a'' ''b'',
          AttributeNameReceived [] ''x'',
          AttributeValueReceived ''1'',
          StartElementReceived [] ''c'',
          EndElementReceived [] ''c'']\<rparr>"
  "fed 20 =
     \<lparr>xml_state = Xml_State_OpenElement, xml_buffer = ''text<'',
        elementNamespaceAndName = [''c''],
        xml_raised = [StartElementReceived ''a'' ''b'',
          AttributeNameReceived [] ''x'',
          AttributeValueReceived ''1'',
          StartElementReceived [] ''c'',
          EndElementReceived [] ''c'']\<rparr>"
  "fed 21 =
     \<lparr>xml_state = Xml_State_OpenElement, xml_buffer = ''text</'',
        elementNamespaceAndName = [''c''],
        xml_raised = [StartElementReceived ''a'' ''b'',
          AttributeNameReceived [] ''x'',
          AttributeValueReceived ''1'',
          StartElementReceived [] ''c'',
          EndElementReceived [] ''c'']\<rparr>"
  "fed 22 =
     \<lparr>xml_state = Xml_State_OpenElement, xml_buffer = ''text</a'',
        elementNamespaceAndName = [''c''],
        xml_raised = [StartElementReceived ''a'' ''b'',
          AttributeNameReceived [] ''x'',
          AttributeValueReceived ''1'',
          StartElementReceived [] ''c'',
          EndElementReceived [] ''c'']\<rparr>"
  "fed 23 =
     \<lparr>xml_state = Xml_State_OpenElement, xml_buffer = ''text</a:'',
        elementNamespaceAndName = [''c''],
        xml_raised = [StartElementReceived ''a'' ''b'',
          AttributeNameReceived [] ''x'',
          AttributeValueReceived ''1'',
          StartElementReceived [] ''c'',
          EndElementReceived [] ''c'']\<rparr>"
  "fed 24 =
     \<lparr>xml_state = Xml_State_OpenElement, xml_buffer = ''text</a:b'',
        elementNamespaceAndName = [''c''],
        xml_raised = [StartElementReceived ''a'' ''b'',
          AttributeNameReceived [] ''x'',
          AttributeValueReceived ''1'',
          StartElementReceived [] ''c'',
          EndElementReceived [] ''c'']\<rparr>"
  "fed 25 =
     \<lparr>xml_state = Xml_State_OpenElement, xml_buffer = ''text</a:b>'',
        elementNamespaceAndName = [''c''],
        xml_raised = [StartElementReceived ''a'' ''b'',
          AttributeNameReceived [] ''x'',
          AttributeValueReceived ''1'',
          StartElementReceived [] ''c'',
          EndElementReceived [] ''c'']\<rparr>"
  by (simp_all add: fed_def Append_def the_document_def new_parser_def xml_Fire.simps xml_table
        xml_handlers)

lemma fed_Suc_0:
  "fed (Suc 0) =
     \<lparr>xml_state = Xml_State_OptionalSlashOrQuestionAfterOpenElement, xml_buffer = [],
        elementNamespaceAndName = [],
        xml_raised = []\<rparr>"
  using fed_values(2) by simp

lemmas xml_eval = fed_values fed_Suc_0 Append_def the_document_def xml_Fire.simps xml_table
  xml_handlers

lemma sums_0:
  "(0::nat) + 0 = 0"
  "(0::nat) + 1 = 1"
  "(0::nat) + 2 = 2"
  "(0::nat) + 3 = 3"
  "(0::nat) + 4 = 4"
  "(0::nat) + 5 = 5"
  "(0::nat) + 6 = 6"
  "(0::nat) + 7 = 7"
  "(0::nat) + 8 = 8"
  "(0::nat) + 9 = 9"
  "(0::nat) + 10 = 10"
  "(0::nat) + 11 = 11"
  "(0::nat) + 12 = 12"
  "(0::nat) + 13 = 13"
  "(0::nat) + 14 = 14"
  "(0::nat) + 15 = 15"
  "(0::nat) + 16 = 16"
  "(0::nat) + 17 = 17"
  "(0::nat) + 18 = 18"
  "(0::nat) + 19 = 19"
  "(0::nat) + 20 = 20"
  "(0::nat) + 21 = 21"
  "(0::nat) + 22 = 22"
  "(0::nat) + 23 = 23"
  "(0::nat) + 24 = 24"
  "(0::nat) + 25 = 25"
  by simp_all

lemma Append_at_0:
  "Append (take 0 (drop 0 the_document)) (fed 0) = Some (Inr (), fed 0)"
  "Append (take 1 (drop 0 the_document)) (fed 0) = Some (Inr (), fed 1)"
  "Append (take 2 (drop 0 the_document)) (fed 0) = Some (Inr (), fed 2)"
  "Append (take 3 (drop 0 the_document)) (fed 0) = Some (Inr (), fed 3)"
  "Append (take 4 (drop 0 the_document)) (fed 0) = Some (Inr (), fed 4)"
  "Append (take 5 (drop 0 the_document)) (fed 0) = Some (Inr (), fed 5)"
  "Append (take 6 (drop 0 the_document)) (fed 0) = Some (Inr (), fed 6)"
  "Append (take 7 (drop 0 the_document)) (fed 0) = Some (Inr (), fed 7)"
  "Append (take 8 (drop 0 the_document)) (fed 0) = Some (Inr (), fed 8)"
  "Append (take 9 (drop 0 the_document)) (fed 0) = Some (Inr (), fed 9)"
  "Append (take 10 (drop 0 the_document)) (fed 0) = Some (Inr (), fed 10)"
  "Append (take 11 (drop 0 the_document)) (fed 0) = Some (Inr (), fed 11)"
  "Append (take 12 (drop 0 the_document)) (fed 0) = Some (Inr (), fed 12)"
  "Append (take 13 (drop 0 the_document)) (fed 0) = Some (Inr (), fed 13)"
  "Append (take 14 (drop 0 the_document)) (fed 0) = Some (Inr (), fed 14)"
  "Append (take 15 (drop 0 the_document)) (fed 0) = Some (Inr (), fed 15)"
  "Append (take 16 (drop 0 the_document)) (fed 0) = Some (Inr (), fed 16)"
  "Append (take 17 (drop 0 the_document)) (fed 0) = Some (Inr (), fed 17)"
  "Append (take 18 (drop 0 the_document)) (fed 0) = Some (Inr (), fed 18)"
  "Append (take 19 (drop 0 the_document)) (fed 0) = Some (Inr (), fed 19)"
  "Append (take 20 (drop 0 the_document)) (fed 0) = Some (Inr (), fed 20)"
  "Append (take 21 (drop 0 the_document)) (fed 0) = Some (Inr (), fed 21)"
  "Append (take 22 (drop 0 the_document)) (fed 0) = Some (Inr (), fed 22)"
  "Append (take 23 (drop 0 the_document)) (fed 0) = Some (Inr (), fed 23)"
  "Append (take 24 (drop 0 the_document)) (fed 0) = Some (Inr (), fed 24)"
  "Append (take 25 (drop 0 the_document)) (fed 0) = Some (Inr (), fed 25)"
  by (simp_all add: xml_eval)

lemma Append_fed_0:
  assumes "j \<le> 25"
  shows "Append (take j (drop 0 the_document)) (fed 0) = Some (Inr (), fed (0 + j))"
proof -
  from assms have "j = 0 \<or> j = 1 \<or> j = 2 \<or> j = 3 \<or> j = 4 \<or> j = 5 \<or> j = 6 \<or> j = 7 \<or> j = 8 \<or> j = 9 \<or> j = 10 \<or> j = 11 \<or> j = 12 \<or> j = 13 \<or> j = 14 \<or> j = 15 \<or> j = 16 \<or> j = 17 \<or> j = 18 \<or> j = 19 \<or> j = 20 \<or> j = 21 \<or> j = 22 \<or> j = 23 \<or> j = 24 \<or> j = 25" by arith
  then show ?thesis by (elim disjE) (simp_all only: sums_0 Append_at_0)
qed

lemma sums_1:
  "(1::nat) + 0 = 1"
  "(1::nat) + 1 = 2"
  "(1::nat) + 2 = 3"
  "(1::nat) + 3 = 4"
  "(1::nat) + 4 = 5"
  "(1::nat) + 5 = 6"
  "(1::nat) + 6 = 7"
  "(1::nat) + 7 = 8"
  "(1::nat) + 8 = 9"
  "(1::nat) + 9 = 10"
  "(1::nat) + 10 = 11"
  "(1::nat) + 11 = 12"
  "(1::nat) + 12 = 13"
  "(1::nat) + 13 = 14"
  "(1::nat) + 14 = 15"
  "(1::nat) + 15 = 16"
  "(1::nat) + 16 = 17"
  "(1::nat) + 17 = 18"
  "(1::nat) + 18 = 19"
  "(1::nat) + 19 = 20"
  "(1::nat) + 20 = 21"
  "(1::nat) + 21 = 22"
  "(1::nat) + 22 = 23"
  "(1::nat) + 23 = 24"
  "(1::nat) + 24 = 25"
  by simp_all

lemma Append_at_1:
  "Append (take 0 (drop 1 the_document)) (fed 1) = Some (Inr (), fed 1)"
  "Append (take 1 (drop 1 the_document)) (fed 1) = Some (Inr (), fed 2)"
  "Append (take 2 (drop 1 the_document)) (fed 1) = Some (Inr (), fed 3)"
  "Append (take 3 (drop 1 the_document)) (fed 1) = Some (Inr (), fed 4)"
  "Append (take 4 (drop 1 the_document)) (fed 1) = Some (Inr (), fed 5)"
  "Append (take 5 (drop 1 the_document)) (fed 1) = Some (Inr (), fed 6)"
  "Append (take 6 (drop 1 the_document)) (fed 1) = Some (Inr (), fed 7)"
  "Append (take 7 (drop 1 the_document)) (fed 1) = Some (Inr (), fed 8)"
  "Append (take 8 (drop 1 the_document)) (fed 1) = Some (Inr (), fed 9)"
  "Append (take 9 (drop 1 the_document)) (fed 1) = Some (Inr (), fed 10)"
  "Append (take 10 (drop 1 the_document)) (fed 1) = Some (Inr (), fed 11)"
  "Append (take 11 (drop 1 the_document)) (fed 1) = Some (Inr (), fed 12)"
  "Append (take 12 (drop 1 the_document)) (fed 1) = Some (Inr (), fed 13)"
  "Append (take 13 (drop 1 the_document)) (fed 1) = Some (Inr (), fed 14)"
  "Append (take 14 (drop 1 the_document)) (fed 1) = Some (Inr (), fed 15)"
  "Append (take 15 (drop 1 the_document)) (fed 1) = Some (Inr (), fed 16)"
  "Append (take 16 (drop 1 the_document)) (fed 1) = Some (Inr (), fed 17)"
  "Append (take 17 (drop 1 the_document)) (fed 1) = Some (Inr (), fed 18)"
  "Append (take 18 (drop 1 the_document)) (fed 1) = Some (Inr (), fed 19)"
  "Append (take 19 (drop 1 the_document)) (fed 1) = Some (Inr (), fed 20)"
  "Append (take 20 (drop 1 the_document)) (fed 1) = Some (Inr (), fed 21)"
  "Append (take 21 (drop 1 the_document)) (fed 1) = Some (Inr (), fed 22)"
  "Append (take 22 (drop 1 the_document)) (fed 1) = Some (Inr (), fed 23)"
  "Append (take 23 (drop 1 the_document)) (fed 1) = Some (Inr (), fed 24)"
  "Append (take 24 (drop 1 the_document)) (fed 1) = Some (Inr (), fed 25)"
  by (simp_all add: xml_eval)

lemma Append_fed_1:
  assumes "j \<le> 24"
  shows "Append (take j (drop 1 the_document)) (fed 1) = Some (Inr (), fed (1 + j))"
proof -
  from assms have "j = 0 \<or> j = 1 \<or> j = 2 \<or> j = 3 \<or> j = 4 \<or> j = 5 \<or> j = 6 \<or> j = 7 \<or> j = 8 \<or> j = 9 \<or> j = 10 \<or> j = 11 \<or> j = 12 \<or> j = 13 \<or> j = 14 \<or> j = 15 \<or> j = 16 \<or> j = 17 \<or> j = 18 \<or> j = 19 \<or> j = 20 \<or> j = 21 \<or> j = 22 \<or> j = 23 \<or> j = 24" by arith
  then show ?thesis by (elim disjE) (simp_all only: sums_1 Append_at_1)
qed

lemma sums_2:
  "(2::nat) + 0 = 2"
  "(2::nat) + 1 = 3"
  "(2::nat) + 2 = 4"
  "(2::nat) + 3 = 5"
  "(2::nat) + 4 = 6"
  "(2::nat) + 5 = 7"
  "(2::nat) + 6 = 8"
  "(2::nat) + 7 = 9"
  "(2::nat) + 8 = 10"
  "(2::nat) + 9 = 11"
  "(2::nat) + 10 = 12"
  "(2::nat) + 11 = 13"
  "(2::nat) + 12 = 14"
  "(2::nat) + 13 = 15"
  "(2::nat) + 14 = 16"
  "(2::nat) + 15 = 17"
  "(2::nat) + 16 = 18"
  "(2::nat) + 17 = 19"
  "(2::nat) + 18 = 20"
  "(2::nat) + 19 = 21"
  "(2::nat) + 20 = 22"
  "(2::nat) + 21 = 23"
  "(2::nat) + 22 = 24"
  "(2::nat) + 23 = 25"
  by simp_all

lemma Append_at_2:
  "Append (take 0 (drop 2 the_document)) (fed 2) = Some (Inr (), fed 2)"
  "Append (take 1 (drop 2 the_document)) (fed 2) = Some (Inr (), fed 3)"
  "Append (take 2 (drop 2 the_document)) (fed 2) = Some (Inr (), fed 4)"
  "Append (take 3 (drop 2 the_document)) (fed 2) = Some (Inr (), fed 5)"
  "Append (take 4 (drop 2 the_document)) (fed 2) = Some (Inr (), fed 6)"
  "Append (take 5 (drop 2 the_document)) (fed 2) = Some (Inr (), fed 7)"
  "Append (take 6 (drop 2 the_document)) (fed 2) = Some (Inr (), fed 8)"
  "Append (take 7 (drop 2 the_document)) (fed 2) = Some (Inr (), fed 9)"
  "Append (take 8 (drop 2 the_document)) (fed 2) = Some (Inr (), fed 10)"
  "Append (take 9 (drop 2 the_document)) (fed 2) = Some (Inr (), fed 11)"
  "Append (take 10 (drop 2 the_document)) (fed 2) = Some (Inr (), fed 12)"
  "Append (take 11 (drop 2 the_document)) (fed 2) = Some (Inr (), fed 13)"
  "Append (take 12 (drop 2 the_document)) (fed 2) = Some (Inr (), fed 14)"
  "Append (take 13 (drop 2 the_document)) (fed 2) = Some (Inr (), fed 15)"
  "Append (take 14 (drop 2 the_document)) (fed 2) = Some (Inr (), fed 16)"
  "Append (take 15 (drop 2 the_document)) (fed 2) = Some (Inr (), fed 17)"
  "Append (take 16 (drop 2 the_document)) (fed 2) = Some (Inr (), fed 18)"
  "Append (take 17 (drop 2 the_document)) (fed 2) = Some (Inr (), fed 19)"
  "Append (take 18 (drop 2 the_document)) (fed 2) = Some (Inr (), fed 20)"
  "Append (take 19 (drop 2 the_document)) (fed 2) = Some (Inr (), fed 21)"
  "Append (take 20 (drop 2 the_document)) (fed 2) = Some (Inr (), fed 22)"
  "Append (take 21 (drop 2 the_document)) (fed 2) = Some (Inr (), fed 23)"
  "Append (take 22 (drop 2 the_document)) (fed 2) = Some (Inr (), fed 24)"
  "Append (take 23 (drop 2 the_document)) (fed 2) = Some (Inr (), fed 25)"
  by (simp_all add: xml_eval)

lemma Append_fed_2:
  assumes "j \<le> 23"
  shows "Append (take j (drop 2 the_document)) (fed 2) = Some (Inr (), fed (2 + j))"
proof -
  from assms have "j = 0 \<or> j = 1 \<or> j = 2 \<or> j = 3 \<or> j = 4 \<or> j = 5 \<or> j = 6 \<or> j = 7 \<or> j = 8 \<or> j = 9 \<or> j = 10 \<or> j = 11 \<or> j = 12 \<or> j = 13 \<or> j = 14 \<or> j = 15 \<or> j = 16 \<or> j = 17 \<or> j = 18 \<or> j = 19 \<or> j = 20 \<or> j = 21 \<or> j = 22 \<or> j = 23" by arith
  then show ?thesis by (elim disjE) (simp_all only: sums_2 Append_at_2)
qed

lemma sums_3:
  "(3::nat) + 0 = 3"
  "(3::nat) + 1 = 4"
  "(3::nat) + 2 = 5"
  "(3::nat) + 3 = 6"
  "(3::nat) + 4 = 7"
  "(3::nat) + 5 = 8"
  "(3::nat) + 6 = 9"
  "(3::nat) + 7 = 10"
  "(3::nat) + 8 = 11"
  "(3::nat) + 9 = 12"
  "(3::nat) + 10 = 13"
  "(3::nat) + 11 = 14"
  "(3::nat) + 12 = 15"
  "(3::nat) + 13 = 16"
  "(3::nat) + 14 = 17"
  "(3::nat) + 15 = 18"
  "(3::nat) + 16 = 19"
  "(3::nat) + 17 = 20"
  "(3::nat) + 18 = 21"
  "(3::nat) + 19 = 22"
  "(3::nat) + 20 = 23"
  "(3::nat) + 21 = 24"
  "(3::nat) + 22 = 25"
  by simp_all

lemma Append_at_3:
  "Append (take 0 (drop 3 the_document)) (fed 3) = Some (Inr (), fed 3)"
  "Append (take 1 (drop 3 the_document)) (fed 3) = Some (Inr (), fed 4)"
  "Append (take 2 (drop 3 the_document)) (fed 3) = Some (Inr (), fed 5)"
  "Append (take 3 (drop 3 the_document)) (fed 3) = Some (Inr (), fed 6)"
  "Append (take 4 (drop 3 the_document)) (fed 3) = Some (Inr (), fed 7)"
  "Append (take 5 (drop 3 the_document)) (fed 3) = Some (Inr (), fed 8)"
  "Append (take 6 (drop 3 the_document)) (fed 3) = Some (Inr (), fed 9)"
  "Append (take 7 (drop 3 the_document)) (fed 3) = Some (Inr (), fed 10)"
  "Append (take 8 (drop 3 the_document)) (fed 3) = Some (Inr (), fed 11)"
  "Append (take 9 (drop 3 the_document)) (fed 3) = Some (Inr (), fed 12)"
  "Append (take 10 (drop 3 the_document)) (fed 3) = Some (Inr (), fed 13)"
  "Append (take 11 (drop 3 the_document)) (fed 3) = Some (Inr (), fed 14)"
  "Append (take 12 (drop 3 the_document)) (fed 3) = Some (Inr (), fed 15)"
  "Append (take 13 (drop 3 the_document)) (fed 3) = Some (Inr (), fed 16)"
  "Append (take 14 (drop 3 the_document)) (fed 3) = Some (Inr (), fed 17)"
  "Append (take 15 (drop 3 the_document)) (fed 3) = Some (Inr (), fed 18)"
  "Append (take 16 (drop 3 the_document)) (fed 3) = Some (Inr (), fed 19)"
  "Append (take 17 (drop 3 the_document)) (fed 3) = Some (Inr (), fed 20)"
  "Append (take 18 (drop 3 the_document)) (fed 3) = Some (Inr (), fed 21)"
  "Append (take 19 (drop 3 the_document)) (fed 3) = Some (Inr (), fed 22)"
  "Append (take 20 (drop 3 the_document)) (fed 3) = Some (Inr (), fed 23)"
  "Append (take 21 (drop 3 the_document)) (fed 3) = Some (Inr (), fed 24)"
  "Append (take 22 (drop 3 the_document)) (fed 3) = Some (Inr (), fed 25)"
  by (simp_all add: xml_eval)

lemma Append_fed_3:
  assumes "j \<le> 22"
  shows "Append (take j (drop 3 the_document)) (fed 3) = Some (Inr (), fed (3 + j))"
proof -
  from assms have "j = 0 \<or> j = 1 \<or> j = 2 \<or> j = 3 \<or> j = 4 \<or> j = 5 \<or> j = 6 \<or> j = 7 \<or> j = 8 \<or> j = 9 \<or> j = 10 \<or> j = 11 \<or> j = 12 \<or> j = 13 \<or> j = 14 \<or> j = 15 \<or> j = 16 \<or> j = 17 \<or> j = 18 \<or> j = 19 \<or> j = 20 \<or> j = 21 \<or> j = 22" by arith
  then show ?thesis by (elim disjE) (simp_all only: sums_3 Append_at_3)
qed

lemma sums_4:
  "(4::nat) + 0 = 4"
  "(4::nat) + 1 = 5"
  "(4::nat) + 2 = 6"
  "(4::nat) + 3 = 7"
  "(4::nat) + 4 = 8"
  "(4::nat) + 5 = 9"
  "(4::nat) + 6 = 10"
  "(4::nat) + 7 = 11"
  "(4::nat) + 8 = 12"
  "(4::nat) + 9 = 13"
  "(4::nat) + 10 = 14"
  "(4::nat) + 11 = 15"
  "(4::nat) + 12 = 16"
  "(4::nat) + 13 = 17"
  "(4::nat) + 14 = 18"
  "(4::nat) + 15 = 19"
  "(4::nat) + 16 = 20"
  "(4::nat) + 17 = 21"
  "(4::nat) + 18 = 22"
  "(4::nat) + 19 = 23"
  "(4::nat) + 20 = 24"
  "(4::nat) + 21 = 25"
  by simp_all

lemma Append_at_4:
  "Append (take 0 (drop 4 the_document)) (fed 4) = Some (Inr (), fed 4)"
  "Append (take 1 (drop 4 the_document)) (fed 4) = Some (Inr (), fed 5)"
  "Append (take 2 (drop 4 the_document)) (fed 4) = Some (Inr (), fed 6)"
  "Append (take 3 (drop 4 the_document)) (fed 4) = Some (Inr (), fed 7)"
  "Append (take 4 (drop 4 the_document)) (fed 4) = Some (Inr (), fed 8)"
  "Append (take 5 (drop 4 the_document)) (fed 4) = Some (Inr (), fed 9)"
  "Append (take 6 (drop 4 the_document)) (fed 4) = Some (Inr (), fed 10)"
  "Append (take 7 (drop 4 the_document)) (fed 4) = Some (Inr (), fed 11)"
  "Append (take 8 (drop 4 the_document)) (fed 4) = Some (Inr (), fed 12)"
  "Append (take 9 (drop 4 the_document)) (fed 4) = Some (Inr (), fed 13)"
  "Append (take 10 (drop 4 the_document)) (fed 4) = Some (Inr (), fed 14)"
  "Append (take 11 (drop 4 the_document)) (fed 4) = Some (Inr (), fed 15)"
  "Append (take 12 (drop 4 the_document)) (fed 4) = Some (Inr (), fed 16)"
  "Append (take 13 (drop 4 the_document)) (fed 4) = Some (Inr (), fed 17)"
  "Append (take 14 (drop 4 the_document)) (fed 4) = Some (Inr (), fed 18)"
  "Append (take 15 (drop 4 the_document)) (fed 4) = Some (Inr (), fed 19)"
  "Append (take 16 (drop 4 the_document)) (fed 4) = Some (Inr (), fed 20)"
  "Append (take 17 (drop 4 the_document)) (fed 4) = Some (Inr (), fed 21)"
  "Append (take 18 (drop 4 the_document)) (fed 4) = Some (Inr (), fed 22)"
  "Append (take 19 (drop 4 the_document)) (fed 4) = Some (Inr (), fed 23)"
  "Append (take 20 (drop 4 the_document)) (fed 4) = Some (Inr (), fed 24)"
  "Append (take 21 (drop 4 the_document)) (fed 4) = Some (Inr (), fed 25)"
  by (simp_all add: xml_eval)

lemma Append_fed_4:
  assumes "j \<le> 21"
  shows "Append (take j (drop 4 the_document)) (fed 4) = Some (Inr (), fed (4 + j))"
proof -
  from assms have "j = 0 \<or> j = 1 \<or> j = 2 \<or> j = 3 \<or> j = 4 \<or> j = 5 \<or> j = 6 \<or> j = 7 \<or> j = 8 \<or> j = 9 \<or> j = 10 \<or> j = 11 \<or> j = 12 \<or> j = 13 \<or> j = 14 \<or> j = 15 \<or> j = 16 \<or> j = 17 \<or> j = 18 \<or> j = 19 \<or> j = 20 \<or> j = 21" by arith
  then show ?thesis by (elim disjE) (simp_all only: sums_4 Append_at_4)
qed

lemma sums_5:
  "(5::nat) + 0 = 5"
  "(5::nat) + 1 = 6"
  "(5::nat) + 2 = 7"
  "(5::nat) + 3 = 8"
  "(5::nat) + 4 = 9"
  "(5::nat) + 5 = 10"
  "(5::nat) + 6 = 11"
  "(5::nat) + 7 = 12"
  "(5::nat) + 8 = 13"
  "(5::nat) + 9 = 14"
  "(5::nat) + 10 = 15"
  "(5::nat) + 11 = 16"
  "(5::nat) + 12 = 17"
  "(5::nat) + 13 = 18"
  "(5::nat) + 14 = 19"
  "(5::nat) + 15 = 20"
  "(5::nat) + 16 = 21"
  "(5::nat) + 17 = 22"
  "(5::nat) + 18 = 23"
  "(5::nat) + 19 = 24"
  "(5::nat) + 20 = 25"
  by simp_all

lemma Append_at_5:
  "Append (take 0 (drop 5 the_document)) (fed 5) = Some (Inr (), fed 5)"
  "Append (take 1 (drop 5 the_document)) (fed 5) = Some (Inr (), fed 6)"
  "Append (take 2 (drop 5 the_document)) (fed 5) = Some (Inr (), fed 7)"
  "Append (take 3 (drop 5 the_document)) (fed 5) = Some (Inr (), fed 8)"
  "Append (take 4 (drop 5 the_document)) (fed 5) = Some (Inr (), fed 9)"
  "Append (take 5 (drop 5 the_document)) (fed 5) = Some (Inr (), fed 10)"
  "Append (take 6 (drop 5 the_document)) (fed 5) = Some (Inr (), fed 11)"
  "Append (take 7 (drop 5 the_document)) (fed 5) = Some (Inr (), fed 12)"
  "Append (take 8 (drop 5 the_document)) (fed 5) = Some (Inr (), fed 13)"
  "Append (take 9 (drop 5 the_document)) (fed 5) = Some (Inr (), fed 14)"
  "Append (take 10 (drop 5 the_document)) (fed 5) = Some (Inr (), fed 15)"
  "Append (take 11 (drop 5 the_document)) (fed 5) = Some (Inr (), fed 16)"
  "Append (take 12 (drop 5 the_document)) (fed 5) = Some (Inr (), fed 17)"
  "Append (take 13 (drop 5 the_document)) (fed 5) = Some (Inr (), fed 18)"
  "Append (take 14 (drop 5 the_document)) (fed 5) = Some (Inr (), fed 19)"
  "Append (take 15 (drop 5 the_document)) (fed 5) = Some (Inr (), fed 20)"
  "Append (take 16 (drop 5 the_document)) (fed 5) = Some (Inr (), fed 21)"
  "Append (take 17 (drop 5 the_document)) (fed 5) = Some (Inr (), fed 22)"
  "Append (take 18 (drop 5 the_document)) (fed 5) = Some (Inr (), fed 23)"
  "Append (take 19 (drop 5 the_document)) (fed 5) = Some (Inr (), fed 24)"
  "Append (take 20 (drop 5 the_document)) (fed 5) = Some (Inr (), fed 25)"
  by (simp_all add: xml_eval)

lemma Append_fed_5:
  assumes "j \<le> 20"
  shows "Append (take j (drop 5 the_document)) (fed 5) = Some (Inr (), fed (5 + j))"
proof -
  from assms have "j = 0 \<or> j = 1 \<or> j = 2 \<or> j = 3 \<or> j = 4 \<or> j = 5 \<or> j = 6 \<or> j = 7 \<or> j = 8 \<or> j = 9 \<or> j = 10 \<or> j = 11 \<or> j = 12 \<or> j = 13 \<or> j = 14 \<or> j = 15 \<or> j = 16 \<or> j = 17 \<or> j = 18 \<or> j = 19 \<or> j = 20" by arith
  then show ?thesis by (elim disjE) (simp_all only: sums_5 Append_at_5)
qed

lemma sums_6:
  "(6::nat) + 0 = 6"
  "(6::nat) + 1 = 7"
  "(6::nat) + 2 = 8"
  "(6::nat) + 3 = 9"
  "(6::nat) + 4 = 10"
  "(6::nat) + 5 = 11"
  "(6::nat) + 6 = 12"
  "(6::nat) + 7 = 13"
  "(6::nat) + 8 = 14"
  "(6::nat) + 9 = 15"
  "(6::nat) + 10 = 16"
  "(6::nat) + 11 = 17"
  "(6::nat) + 12 = 18"
  "(6::nat) + 13 = 19"
  "(6::nat) + 14 = 20"
  "(6::nat) + 15 = 21"
  "(6::nat) + 16 = 22"
  "(6::nat) + 17 = 23"
  "(6::nat) + 18 = 24"
  "(6::nat) + 19 = 25"
  by simp_all

lemma Append_at_6:
  "Append (take 0 (drop 6 the_document)) (fed 6) = Some (Inr (), fed 6)"
  "Append (take 1 (drop 6 the_document)) (fed 6) = Some (Inr (), fed 7)"
  "Append (take 2 (drop 6 the_document)) (fed 6) = Some (Inr (), fed 8)"
  "Append (take 3 (drop 6 the_document)) (fed 6) = Some (Inr (), fed 9)"
  "Append (take 4 (drop 6 the_document)) (fed 6) = Some (Inr (), fed 10)"
  "Append (take 5 (drop 6 the_document)) (fed 6) = Some (Inr (), fed 11)"
  "Append (take 6 (drop 6 the_document)) (fed 6) = Some (Inr (), fed 12)"
  "Append (take 7 (drop 6 the_document)) (fed 6) = Some (Inr (), fed 13)"
  "Append (take 8 (drop 6 the_document)) (fed 6) = Some (Inr (), fed 14)"
  "Append (take 9 (drop 6 the_document)) (fed 6) = Some (Inr (), fed 15)"
  "Append (take 10 (drop 6 the_document)) (fed 6) = Some (Inr (), fed 16)"
  "Append (take 11 (drop 6 the_document)) (fed 6) = Some (Inr (), fed 17)"
  "Append (take 12 (drop 6 the_document)) (fed 6) = Some (Inr (), fed 18)"
  "Append (take 13 (drop 6 the_document)) (fed 6) = Some (Inr (), fed 19)"
  "Append (take 14 (drop 6 the_document)) (fed 6) = Some (Inr (), fed 20)"
  "Append (take 15 (drop 6 the_document)) (fed 6) = Some (Inr (), fed 21)"
  "Append (take 16 (drop 6 the_document)) (fed 6) = Some (Inr (), fed 22)"
  "Append (take 17 (drop 6 the_document)) (fed 6) = Some (Inr (), fed 23)"
  "Append (take 18 (drop 6 the_document)) (fed 6) = Some (Inr (), fed 24)"
  "Append (take 19 (drop 6 the_document)) (fed 6) = Some (Inr (), fed 25)"
  by (simp_all add: xml_eval)

lemma Append_fed_6:
  assumes "j \<le> 19"
  shows "Append (take j (drop 6 the_document)) (fed 6) = Some (Inr (), fed (6 + j))"
proof -
  from assms have "j = 0 \<or> j = 1 \<or> j = 2 \<or> j = 3 \<or> j = 4 \<or> j = 5 \<or> j = 6 \<or> j = 7 \<or> j = 8 \<or> j = 9 \<or> j = 10 \<or> j = 11 \<or> j = 12 \<or> j = 13 \<or> j = 14 \<or> j = 15 \<or> j = 16 \<or> j = 17 \<or> j = 18 \<or> j = 19" by arith
  then show ?thesis by (elim disjE) (simp_all only: sums_6 Append_at_6)
qed

lemma sums_7:
  "(7::nat) + 0 = 7"
  "(7::nat) + 1 = 8"
  "(7::nat) + 2 = 9"
  "(7::nat) + 3 = 10"
  "(7::nat) + 4 = 11"
  "(7::nat) + 5 = 12"
  "(7::nat) + 6 = 13"
  "(7::nat) + 7 = 14"
  "(7::nat) + 8 = 15"
  "(7::nat) + 9 = 16"
  "(7::nat) + 10 = 17"
  "(7::nat) + 11 = 18"
  "(7::nat) + 12 = 19"
  "(7::nat) + 13 = 20"
  "(7::nat) + 14 = 21"
  "(7::nat) + 15 = 22"
  "(7::nat) + 16 = 23"
  "(7::nat) + 17 = 24"
  "(7::nat) + 18 = 25"
  by simp_all

lemma Append_at_7:
  "Append (take 0 (drop 7 the_document)) (fed 7) = Some (Inr (), fed 7)"
  "Append (take 1 (drop 7 the_document)) (fed 7) = Some (Inr (), fed 8)"
  "Append (take 2 (drop 7 the_document)) (fed 7) = Some (Inr (), fed 9)"
  "Append (take 3 (drop 7 the_document)) (fed 7) = Some (Inr (), fed 10)"
  "Append (take 4 (drop 7 the_document)) (fed 7) = Some (Inr (), fed 11)"
  "Append (take 5 (drop 7 the_document)) (fed 7) = Some (Inr (), fed 12)"
  "Append (take 6 (drop 7 the_document)) (fed 7) = Some (Inr (), fed 13)"
  "Append (take 7 (drop 7 the_document)) (fed 7) = Some (Inr (), fed 14)"
  "Append (take 8 (drop 7 the_document)) (fed 7) = Some (Inr (), fed 15)"
  "Append (take 9 (drop 7 the_document)) (fed 7) = Some (Inr (), fed 16)"
  "Append (take 10 (drop 7 the_document)) (fed 7) = Some (Inr (), fed 17)"
  "Append (take 11 (drop 7 the_document)) (fed 7) = Some (Inr (), fed 18)"
  "Append (take 12 (drop 7 the_document)) (fed 7) = Some (Inr (), fed 19)"
  "Append (take 13 (drop 7 the_document)) (fed 7) = Some (Inr (), fed 20)"
  "Append (take 14 (drop 7 the_document)) (fed 7) = Some (Inr (), fed 21)"
  "Append (take 15 (drop 7 the_document)) (fed 7) = Some (Inr (), fed 22)"
  "Append (take 16 (drop 7 the_document)) (fed 7) = Some (Inr (), fed 23)"
  "Append (take 17 (drop 7 the_document)) (fed 7) = Some (Inr (), fed 24)"
  "Append (take 18 (drop 7 the_document)) (fed 7) = Some (Inr (), fed 25)"
  by (simp_all add: xml_eval)

lemma Append_fed_7:
  assumes "j \<le> 18"
  shows "Append (take j (drop 7 the_document)) (fed 7) = Some (Inr (), fed (7 + j))"
proof -
  from assms have "j = 0 \<or> j = 1 \<or> j = 2 \<or> j = 3 \<or> j = 4 \<or> j = 5 \<or> j = 6 \<or> j = 7 \<or> j = 8 \<or> j = 9 \<or> j = 10 \<or> j = 11 \<or> j = 12 \<or> j = 13 \<or> j = 14 \<or> j = 15 \<or> j = 16 \<or> j = 17 \<or> j = 18" by arith
  then show ?thesis by (elim disjE) (simp_all only: sums_7 Append_at_7)
qed

lemma sums_8:
  "(8::nat) + 0 = 8"
  "(8::nat) + 1 = 9"
  "(8::nat) + 2 = 10"
  "(8::nat) + 3 = 11"
  "(8::nat) + 4 = 12"
  "(8::nat) + 5 = 13"
  "(8::nat) + 6 = 14"
  "(8::nat) + 7 = 15"
  "(8::nat) + 8 = 16"
  "(8::nat) + 9 = 17"
  "(8::nat) + 10 = 18"
  "(8::nat) + 11 = 19"
  "(8::nat) + 12 = 20"
  "(8::nat) + 13 = 21"
  "(8::nat) + 14 = 22"
  "(8::nat) + 15 = 23"
  "(8::nat) + 16 = 24"
  "(8::nat) + 17 = 25"
  by simp_all

lemma Append_at_8:
  "Append (take 0 (drop 8 the_document)) (fed 8) = Some (Inr (), fed 8)"
  "Append (take 1 (drop 8 the_document)) (fed 8) = Some (Inr (), fed 9)"
  "Append (take 2 (drop 8 the_document)) (fed 8) = Some (Inr (), fed 10)"
  "Append (take 3 (drop 8 the_document)) (fed 8) = Some (Inr (), fed 11)"
  "Append (take 4 (drop 8 the_document)) (fed 8) = Some (Inr (), fed 12)"
  "Append (take 5 (drop 8 the_document)) (fed 8) = Some (Inr (), fed 13)"
  "Append (take 6 (drop 8 the_document)) (fed 8) = Some (Inr (), fed 14)"
  "Append (take 7 (drop 8 the_document)) (fed 8) = Some (Inr (), fed 15)"
  "Append (take 8 (drop 8 the_document)) (fed 8) = Some (Inr (), fed 16)"
  "Append (take 9 (drop 8 the_document)) (fed 8) = Some (Inr (), fed 17)"
  "Append (take 10 (drop 8 the_document)) (fed 8) = Some (Inr (), fed 18)"
  "Append (take 11 (drop 8 the_document)) (fed 8) = Some (Inr (), fed 19)"
  "Append (take 12 (drop 8 the_document)) (fed 8) = Some (Inr (), fed 20)"
  "Append (take 13 (drop 8 the_document)) (fed 8) = Some (Inr (), fed 21)"
  "Append (take 14 (drop 8 the_document)) (fed 8) = Some (Inr (), fed 22)"
  "Append (take 15 (drop 8 the_document)) (fed 8) = Some (Inr (), fed 23)"
  "Append (take 16 (drop 8 the_document)) (fed 8) = Some (Inr (), fed 24)"
  "Append (take 17 (drop 8 the_document)) (fed 8) = Some (Inr (), fed 25)"
  by (simp_all add: xml_eval)

lemma Append_fed_8:
  assumes "j \<le> 17"
  shows "Append (take j (drop 8 the_document)) (fed 8) = Some (Inr (), fed (8 + j))"
proof -
  from assms have "j = 0 \<or> j = 1 \<or> j = 2 \<or> j = 3 \<or> j = 4 \<or> j = 5 \<or> j = 6 \<or> j = 7 \<or> j = 8 \<or> j = 9 \<or> j = 10 \<or> j = 11 \<or> j = 12 \<or> j = 13 \<or> j = 14 \<or> j = 15 \<or> j = 16 \<or> j = 17" by arith
  then show ?thesis by (elim disjE) (simp_all only: sums_8 Append_at_8)
qed

lemma sums_9:
  "(9::nat) + 0 = 9"
  "(9::nat) + 1 = 10"
  "(9::nat) + 2 = 11"
  "(9::nat) + 3 = 12"
  "(9::nat) + 4 = 13"
  "(9::nat) + 5 = 14"
  "(9::nat) + 6 = 15"
  "(9::nat) + 7 = 16"
  "(9::nat) + 8 = 17"
  "(9::nat) + 9 = 18"
  "(9::nat) + 10 = 19"
  "(9::nat) + 11 = 20"
  "(9::nat) + 12 = 21"
  "(9::nat) + 13 = 22"
  "(9::nat) + 14 = 23"
  "(9::nat) + 15 = 24"
  "(9::nat) + 16 = 25"
  by simp_all

lemma Append_at_9:
  "Append (take 0 (drop 9 the_document)) (fed 9) = Some (Inr (), fed 9)"
  "Append (take 1 (drop 9 the_document)) (fed 9) = Some (Inr (), fed 10)"
  "Append (take 2 (drop 9 the_document)) (fed 9) = Some (Inr (), fed 11)"
  "Append (take 3 (drop 9 the_document)) (fed 9) = Some (Inr (), fed 12)"
  "Append (take 4 (drop 9 the_document)) (fed 9) = Some (Inr (), fed 13)"
  "Append (take 5 (drop 9 the_document)) (fed 9) = Some (Inr (), fed 14)"
  "Append (take 6 (drop 9 the_document)) (fed 9) = Some (Inr (), fed 15)"
  "Append (take 7 (drop 9 the_document)) (fed 9) = Some (Inr (), fed 16)"
  "Append (take 8 (drop 9 the_document)) (fed 9) = Some (Inr (), fed 17)"
  "Append (take 9 (drop 9 the_document)) (fed 9) = Some (Inr (), fed 18)"
  "Append (take 10 (drop 9 the_document)) (fed 9) = Some (Inr (), fed 19)"
  "Append (take 11 (drop 9 the_document)) (fed 9) = Some (Inr (), fed 20)"
  "Append (take 12 (drop 9 the_document)) (fed 9) = Some (Inr (), fed 21)"
  "Append (take 13 (drop 9 the_document)) (fed 9) = Some (Inr (), fed 22)"
  "Append (take 14 (drop 9 the_document)) (fed 9) = Some (Inr (), fed 23)"
  "Append (take 15 (drop 9 the_document)) (fed 9) = Some (Inr (), fed 24)"
  "Append (take 16 (drop 9 the_document)) (fed 9) = Some (Inr (), fed 25)"
  by (simp_all add: xml_eval)

lemma Append_fed_9:
  assumes "j \<le> 16"
  shows "Append (take j (drop 9 the_document)) (fed 9) = Some (Inr (), fed (9 + j))"
proof -
  from assms have "j = 0 \<or> j = 1 \<or> j = 2 \<or> j = 3 \<or> j = 4 \<or> j = 5 \<or> j = 6 \<or> j = 7 \<or> j = 8 \<or> j = 9 \<or> j = 10 \<or> j = 11 \<or> j = 12 \<or> j = 13 \<or> j = 14 \<or> j = 15 \<or> j = 16" by arith
  then show ?thesis by (elim disjE) (simp_all only: sums_9 Append_at_9)
qed

lemma sums_10:
  "(10::nat) + 0 = 10"
  "(10::nat) + 1 = 11"
  "(10::nat) + 2 = 12"
  "(10::nat) + 3 = 13"
  "(10::nat) + 4 = 14"
  "(10::nat) + 5 = 15"
  "(10::nat) + 6 = 16"
  "(10::nat) + 7 = 17"
  "(10::nat) + 8 = 18"
  "(10::nat) + 9 = 19"
  "(10::nat) + 10 = 20"
  "(10::nat) + 11 = 21"
  "(10::nat) + 12 = 22"
  "(10::nat) + 13 = 23"
  "(10::nat) + 14 = 24"
  "(10::nat) + 15 = 25"
  by simp_all

lemma Append_at_10:
  "Append (take 0 (drop 10 the_document)) (fed 10) = Some (Inr (), fed 10)"
  "Append (take 1 (drop 10 the_document)) (fed 10) = Some (Inr (), fed 11)"
  "Append (take 2 (drop 10 the_document)) (fed 10) = Some (Inr (), fed 12)"
  "Append (take 3 (drop 10 the_document)) (fed 10) = Some (Inr (), fed 13)"
  "Append (take 4 (drop 10 the_document)) (fed 10) = Some (Inr (), fed 14)"
  "Append (take 5 (drop 10 the_document)) (fed 10) = Some (Inr (), fed 15)"
  "Append (take 6 (drop 10 the_document)) (fed 10) = Some (Inr (), fed 16)"
  "Append (take 7 (drop 10 the_document)) (fed 10) = Some (Inr (), fed 17)"
  "Append (take 8 (drop 10 the_document)) (fed 10) = Some (Inr (), fed 18)"
  "Append (take 9 (drop 10 the_document)) (fed 10) = Some (Inr (), fed 19)"
  "Append (take 10 (drop 10 the_document)) (fed 10) = Some (Inr (), fed 20)"
  "Append (take 11 (drop 10 the_document)) (fed 10) = Some (Inr (), fed 21)"
  "Append (take 12 (drop 10 the_document)) (fed 10) = Some (Inr (), fed 22)"
  "Append (take 13 (drop 10 the_document)) (fed 10) = Some (Inr (), fed 23)"
  "Append (take 14 (drop 10 the_document)) (fed 10) = Some (Inr (), fed 24)"
  "Append (take 15 (drop 10 the_document)) (fed 10) = Some (Inr (), fed 25)"
  by (simp_all add: xml_eval)

lemma Append_fed_10:
  assumes "j \<le> 15"
  shows "Append (take j (drop 10 the_document)) (fed 10) = Some (Inr (), fed (10 + j))"
proof -
  from assms have "j = 0 \<or> j = 1 \<or> j = 2 \<or> j = 3 \<or> j = 4 \<or> j = 5 \<or> j = 6 \<or> j = 7 \<or> j = 8 \<or> j = 9 \<or> j = 10 \<or> j = 11 \<or> j = 12 \<or> j = 13 \<or> j = 14 \<or> j = 15" by arith
  then show ?thesis by (elim disjE) (simp_all only: sums_10 Append_at_10)
qed

lemma sums_11:
  "(11::nat) + 0 = 11"
  "(11::nat) + 1 = 12"
  "(11::nat) + 2 = 13"
  "(11::nat) + 3 = 14"
  "(11::nat) + 4 = 15"
  "(11::nat) + 5 = 16"
  "(11::nat) + 6 = 17"
  "(11::nat) + 7 = 18"
  "(11::nat) + 8 = 19"
  "(11::nat) + 9 = 20"
  "(11::nat) + 10 = 21"
  "(11::nat) + 11 = 22"
  "(11::nat) + 12 = 23"
  "(11::nat) + 13 = 24"
  "(11::nat) + 14 = 25"
  by simp_all

lemma Append_at_11:
  "Append (take 0 (drop 11 the_document)) (fed 11) = Some (Inr (), fed 11)"
  "Append (take 1 (drop 11 the_document)) (fed 11) = Some (Inr (), fed 12)"
  "Append (take 2 (drop 11 the_document)) (fed 11) = Some (Inr (), fed 13)"
  "Append (take 3 (drop 11 the_document)) (fed 11) = Some (Inr (), fed 14)"
  "Append (take 4 (drop 11 the_document)) (fed 11) = Some (Inr (), fed 15)"
  "Append (take 5 (drop 11 the_document)) (fed 11) = Some (Inr (), fed 16)"
  "Append (take 6 (drop 11 the_document)) (fed 11) = Some (Inr (), fed 17)"
  "Append (take 7 (drop 11 the_document)) (fed 11) = Some (Inr (), fed 18)"
  "Append (take 8 (drop 11 the_document)) (fed 11) = Some (Inr (), fed 19)"
  "Append (take 9 (drop 11 the_document)) (fed 11) = Some (Inr (), fed 20)"
  "Append (take 10 (drop 11 the_document)) (fed 11) = Some (Inr (), fed 21)"
  "Append (take 11 (drop 11 the_document)) (fed 11) = Some (Inr (), fed 22)"
  "Append (take 12 (drop 11 the_document)) (fed 11) = Some (Inr (), fed 23)"
  "Append (take 13 (drop 11 the_document)) (fed 11) = Some (Inr (), fed 24)"
  "Append (take 14 (drop 11 the_document)) (fed 11) = Some (Inr (), fed 25)"
  by (simp_all add: xml_eval)

lemma Append_fed_11:
  assumes "j \<le> 14"
  shows "Append (take j (drop 11 the_document)) (fed 11) = Some (Inr (), fed (11 + j))"
proof -
  from assms have "j = 0 \<or> j = 1 \<or> j = 2 \<or> j = 3 \<or> j = 4 \<or> j = 5 \<or> j = 6 \<or> j = 7 \<or> j = 8 \<or> j = 9 \<or> j = 10 \<or> j = 11 \<or> j = 12 \<or> j = 13 \<or> j = 14" by arith
  then show ?thesis by (elim disjE) (simp_all only: sums_11 Append_at_11)
qed

lemma sums_12:
  "(12::nat) + 0 = 12"
  "(12::nat) + 1 = 13"
  "(12::nat) + 2 = 14"
  "(12::nat) + 3 = 15"
  "(12::nat) + 4 = 16"
  "(12::nat) + 5 = 17"
  "(12::nat) + 6 = 18"
  "(12::nat) + 7 = 19"
  "(12::nat) + 8 = 20"
  "(12::nat) + 9 = 21"
  "(12::nat) + 10 = 22"
  "(12::nat) + 11 = 23"
  "(12::nat) + 12 = 24"
  "(12::nat) + 13 = 25"
  by simp_all

lemma Append_at_12:
  "Append (take 0 (drop 12 the_document)) (fed 12) = Some (Inr (), fed 12)"
  "Append (take 1 (drop 12 the_document)) (fed 12) = Some (Inr (), fed 13)"
  "Append (take 2 (drop 12 the_document)) (fed 12) = Some (Inr (), fed 14)"
  "Append (take 3 (drop 12 the_document)) (fed 12) = Some (Inr (), fed 15)"
  "Append (take 4 (drop 12 the_document)) (fed 12) = Some (Inr (), fed 16)"
  "Append (take 5 (drop 12 the_document)) (fed 12) = Some (Inr (), fed 17)"
  "Append (take 6 (drop 12 the_document)) (fed 12) = Some (Inr (), fed 18)"
  "Append (take 7 (drop 12 the_document)) (fed 12) = Some (Inr (), fed 19)"
  "Append (take 8 (drop 12 the_document)) (fed 12) = Some (Inr (), fed 20)"
  "Append (take 9 (drop 12 the_document)) (fed 12) = Some (Inr (), fed 21)"
  "Append (take 10 (drop 12 the_document)) (fed 12) = Some (Inr (), fed 22)"
  "Append (take 11 (drop 12 the_document)) (fed 12) = Some (Inr (), fed 23)"
  "Append (take 12 (drop 12 the_document)) (fed 12) = Some (Inr (), fed 24)"
  "Append (take 13 (drop 12 the_document)) (fed 12) = Some (Inr (), fed 25)"
  by (simp_all add: xml_eval)

lemma Append_fed_12:
  assumes "j \<le> 13"
  shows "Append (take j (drop 12 the_document)) (fed 12) = Some (Inr (), fed (12 + j))"
proof -
  from assms have "j = 0 \<or> j = 1 \<or> j = 2 \<or> j = 3 \<or> j = 4 \<or> j = 5 \<or> j = 6 \<or> j = 7 \<or> j = 8 \<or> j = 9 \<or> j = 10 \<or> j = 11 \<or> j = 12 \<or> j = 13" by arith
  then show ?thesis by (elim disjE) (simp_all only: sums_12 Append_at_12)
qed

lemma sums_13:
  "(13::nat) + 0 = 13"
  "(13::nat) + 1 = 14"
  "(13::nat) + 2 = 15"
  "(13::nat) + 3 = 16"
  "(13::nat) + 4 = 17"
  "(13::nat) + 5 = 18"
  "(13::nat) + 6 = 19"
  "(13::nat) + 7 = 20"
  "(13::nat) + 8 = 21"
  "(13::nat) + 9 = 22"
  "(13::nat) + 10 = 23"
  "(13::nat) + 11 = 24"
  "(13::nat) + 12 = 25"
  by simp_all

lemma Append_at_13:
  "Append (take 0 (drop 13 the_document)) (fed 13) = Some (Inr (), fed 13)"
  "Append (take 1 (drop 13 the_document)) (fed 13) = Some (Inr (), fed 14)"
  "Append (take 2 (drop 13 the_document)) (fed 13) = Some (Inr (), fed 15)"
  "Append (take 3 (drop 13 the_document)) (fed 13) = Some (Inr (), fed 16)"
  "Append (take 4 (drop 13 the_document)) (fed 13) = Some (Inr (), fed 17)"
  "Append (take 5 (drop 13 the_document)) (fed 13) = Some (Inr (), fed 18)"
  "Append (take 6 (drop 13 the_document)) (fed 13) = Some (Inr (), fed 19)"
  "Append (take 7 (drop 13 the_document)) (fed 13) = Some (Inr (), fed 20)"
  "Append (take 8 (drop 13 the_document)) (fed 13) = Some (Inr (), fed 21)"
  "Append (take 9 (drop 13 the_document)) (fed 13) = Some (Inr (), fed 22)"
  "Append (take 10 (drop 13 the_document)) (fed 13) = Some (Inr (), fed 23)"
  "Append (take 11 (drop 13 the_document)) (fed 13) = Some (Inr (), fed 24)"
  "Append (take 12 (drop 13 the_document)) (fed 13) = Some (Inr (), fed 25)"
  by (simp_all add: xml_eval)

lemma Append_fed_13:
  assumes "j \<le> 12"
  shows "Append (take j (drop 13 the_document)) (fed 13) = Some (Inr (), fed (13 + j))"
proof -
  from assms have "j = 0 \<or> j = 1 \<or> j = 2 \<or> j = 3 \<or> j = 4 \<or> j = 5 \<or> j = 6 \<or> j = 7 \<or> j = 8 \<or> j = 9 \<or> j = 10 \<or> j = 11 \<or> j = 12" by arith
  then show ?thesis by (elim disjE) (simp_all only: sums_13 Append_at_13)
qed

lemma sums_14:
  "(14::nat) + 0 = 14"
  "(14::nat) + 1 = 15"
  "(14::nat) + 2 = 16"
  "(14::nat) + 3 = 17"
  "(14::nat) + 4 = 18"
  "(14::nat) + 5 = 19"
  "(14::nat) + 6 = 20"
  "(14::nat) + 7 = 21"
  "(14::nat) + 8 = 22"
  "(14::nat) + 9 = 23"
  "(14::nat) + 10 = 24"
  "(14::nat) + 11 = 25"
  by simp_all

lemma Append_at_14:
  "Append (take 0 (drop 14 the_document)) (fed 14) = Some (Inr (), fed 14)"
  "Append (take 1 (drop 14 the_document)) (fed 14) = Some (Inr (), fed 15)"
  "Append (take 2 (drop 14 the_document)) (fed 14) = Some (Inr (), fed 16)"
  "Append (take 3 (drop 14 the_document)) (fed 14) = Some (Inr (), fed 17)"
  "Append (take 4 (drop 14 the_document)) (fed 14) = Some (Inr (), fed 18)"
  "Append (take 5 (drop 14 the_document)) (fed 14) = Some (Inr (), fed 19)"
  "Append (take 6 (drop 14 the_document)) (fed 14) = Some (Inr (), fed 20)"
  "Append (take 7 (drop 14 the_document)) (fed 14) = Some (Inr (), fed 21)"
  "Append (take 8 (drop 14 the_document)) (fed 14) = Some (Inr (), fed 22)"
  "Append (take 9 (drop 14 the_document)) (fed 14) = Some (Inr (), fed 23)"
  "Append (take 10 (drop 14 the_document)) (fed 14) = Some (Inr (), fed 24)"
  "Append (take 11 (drop 14 the_document)) (fed 14) = Some (Inr (), fed 25)"
  by (simp_all add: xml_eval)

lemma Append_fed_14:
  assumes "j \<le> 11"
  shows "Append (take j (drop 14 the_document)) (fed 14) = Some (Inr (), fed (14 + j))"
proof -
  from assms have "j = 0 \<or> j = 1 \<or> j = 2 \<or> j = 3 \<or> j = 4 \<or> j = 5 \<or> j = 6 \<or> j = 7 \<or> j = 8 \<or> j = 9 \<or> j = 10 \<or> j = 11" by arith
  then show ?thesis by (elim disjE) (simp_all only: sums_14 Append_at_14)
qed

lemma sums_15:
  "(15::nat) + 0 = 15"
  "(15::nat) + 1 = 16"
  "(15::nat) + 2 = 17"
  "(15::nat) + 3 = 18"
  "(15::nat) + 4 = 19"
  "(15::nat) + 5 = 20"
  "(15::nat) + 6 = 21"
  "(15::nat) + 7 = 22"
  "(15::nat) + 8 = 23"
  "(15::nat) + 9 = 24"
  "(15::nat) + 10 = 25"
  by simp_all

lemma Append_at_15:
  "Append (take 0 (drop 15 the_document)) (fed 15) = Some (Inr (), fed 15)"
  "Append (take 1 (drop 15 the_document)) (fed 15) = Some (Inr (), fed 16)"
  "Append (take 2 (drop 15 the_document)) (fed 15) = Some (Inr (), fed 17)"
  "Append (take 3 (drop 15 the_document)) (fed 15) = Some (Inr (), fed 18)"
  "Append (take 4 (drop 15 the_document)) (fed 15) = Some (Inr (), fed 19)"
  "Append (take 5 (drop 15 the_document)) (fed 15) = Some (Inr (), fed 20)"
  "Append (take 6 (drop 15 the_document)) (fed 15) = Some (Inr (), fed 21)"
  "Append (take 7 (drop 15 the_document)) (fed 15) = Some (Inr (), fed 22)"
  "Append (take 8 (drop 15 the_document)) (fed 15) = Some (Inr (), fed 23)"
  "Append (take 9 (drop 15 the_document)) (fed 15) = Some (Inr (), fed 24)"
  "Append (take 10 (drop 15 the_document)) (fed 15) = Some (Inr (), fed 25)"
  by (simp_all add: xml_eval)

lemma Append_fed_15:
  assumes "j \<le> 10"
  shows "Append (take j (drop 15 the_document)) (fed 15) = Some (Inr (), fed (15 + j))"
proof -
  from assms have "j = 0 \<or> j = 1 \<or> j = 2 \<or> j = 3 \<or> j = 4 \<or> j = 5 \<or> j = 6 \<or> j = 7 \<or> j = 8 \<or> j = 9 \<or> j = 10" by arith
  then show ?thesis by (elim disjE) (simp_all only: sums_15 Append_at_15)
qed

lemma sums_16:
  "(16::nat) + 0 = 16"
  "(16::nat) + 1 = 17"
  "(16::nat) + 2 = 18"
  "(16::nat) + 3 = 19"
  "(16::nat) + 4 = 20"
  "(16::nat) + 5 = 21"
  "(16::nat) + 6 = 22"
  "(16::nat) + 7 = 23"
  "(16::nat) + 8 = 24"
  "(16::nat) + 9 = 25"
  by simp_all

lemma Append_at_16:
  "Append (take 0 (drop 16 the_document)) (fed 16) = Some (Inr (), fed 16)"
  "Append (take 1 (drop 16 the_document)) (fed 16) = Some (Inr (), fed 17)"
  "Append (take 2 (drop 16 the_document)) (fed 16) = Some (Inr (), fed 18)"
  "Append (take 3 (drop 16 the_document)) (fed 16) = Some (Inr (), fed 19)"
  "Append (take 4 (drop 16 the_document)) (fed 16) = Some (Inr (), fed 20)"
  "Append (take 5 (drop 16 the_document)) (fed 16) = Some (Inr (), fed 21)"
  "Append (take 6 (drop 16 the_document)) (fed 16) = Some (Inr (), fed 22)"
  "Append (take 7 (drop 16 the_document)) (fed 16) = Some (Inr (), fed 23)"
  "Append (take 8 (drop 16 the_document)) (fed 16) = Some (Inr (), fed 24)"
  "Append (take 9 (drop 16 the_document)) (fed 16) = Some (Inr (), fed 25)"
  by (simp_all add: xml_eval)

lemma Append_fed_16:
  assumes "j \<le> 9"
  shows "Append (take j (drop 16 the_document)) (fed 16) = Some (Inr (), fed (16 + j))"
proof -
  from assms have "j = 0 \<or> j = 1 \<or> j = 2 \<or> j = 3 \<or> j = 4 \<or> j = 5 \<or> j = 6 \<or> j = 7 \<or> j = 8 \<or> j = 9" by arith
  then show ?thesis by (elim disjE) (simp_all only: sums_16 Append_at_16)
qed

lemma sums_17:
  "(17::nat) + 0 = 17"
  "(17::nat) + 1 = 18"
  "(17::nat) + 2 = 19"
  "(17::nat) + 3 = 20"
  "(17::nat) + 4 = 21"
  "(17::nat) + 5 = 22"
  "(17::nat) + 6 = 23"
  "(17::nat) + 7 = 24"
  "(17::nat) + 8 = 25"
  by simp_all

lemma Append_at_17:
  "Append (take 0 (drop 17 the_document)) (fed 17) = Some (Inr (), fed 17)"
  "Append (take 1 (drop 17 the_document)) (fed 17) = Some (Inr (), fed 18)"
  "Append (take 2 (drop 17 the_document)) (fed 17) = Some (Inr (), fed 19)"
  "Append (take 3 (drop 17 the_document)) (fed 17) = Some (Inr (), fed 20)"
  "Append (take 4 (drop 17 the_document)) (fed 17) = Some (Inr (), fed 21)"
  "Append (take 5 (drop 17 the_document)) (fed 17) = Some (Inr (), fed 22)"
  "Append (take 6 (drop 17 the_document)) (fed 17) = Some (Inr (), fed 23)"
  "Append (take 7 (drop 17 the_document)) (fed 17) = Some (Inr (), fed 24)"
  "Append (take 8 (drop 17 the_document)) (fed 17) = Some (Inr (), fed 25)"
  by (simp_all add: xml_eval)

lemma Append_fed_17:
  assumes "j \<le> 8"
  shows "Append (take j (drop 17 the_document)) (fed 17) = Some (Inr (), fed (17 + j))"
proof -
  from assms have "j = 0 \<or> j = 1 \<or> j = 2 \<or> j = 3 \<or> j = 4 \<or> j = 5 \<or> j = 6 \<or> j = 7 \<or> j = 8" by arith
  then show ?thesis by (elim disjE) (simp_all only: sums_17 Append_at_17)
qed

lemma sums_18:
  "(18::nat) + 0 = 18"
  "(18::nat) + 1 = 19"
  "(18::nat) + 2 = 20"
  "(18::nat) + 3 = 21"
  "(18::nat) + 4 = 22"
  "(18::nat) + 5 = 23"
  "(18::nat) + 6 = 24"
  "(18::nat) + 7 = 25"
  by simp_all

lemma Append_at_18:
  "Append (take 0 (drop 18 the_document)) (fed 18) = Some (Inr (), fed 18)"
  "Append (take 1 (drop 18 the_document)) (fed 18) = Some (Inr (), fed 19)"
  "Append (take 2 (drop 18 the_document)) (fed 18) = Some (Inr (), fed 20)"
  "Append (take 3 (drop 18 the_document)) (fed 18) = Some (Inr (), fed 21)"
  "Append (take 4 (drop 18 the_document)) (fed 18) = Some (Inr (), fed 22)"
  "Append (take 5 (drop 18 the_document)) (fed 18) = Some (Inr (), fed 23)"
  "Append (take 6 (drop 18 the_document)) (fed 18) = Some (Inr (), fed 24)"
  "Append (take 7 (drop 18 the_document)) (fed 18) = Some (Inr (), fed 25)"
  by (simp_all add: xml_eval)

lemma Append_fed_18:
  assumes "j \<le> 7"
  shows "Append (take j (drop 18 the_document)) (fed 18) = Some (Inr (), fed (18 + j))"
proof -
  from assms have "j = 0 \<or> j = 1 \<or> j = 2 \<or> j = 3 \<or> j = 4 \<or> j = 5 \<or> j = 6 \<or> j = 7" by arith
  then show ?thesis by (elim disjE) (simp_all only: sums_18 Append_at_18)
qed

lemma sums_19:
  "(19::nat) + 0 = 19"
  "(19::nat) + 1 = 20"
  "(19::nat) + 2 = 21"
  "(19::nat) + 3 = 22"
  "(19::nat) + 4 = 23"
  "(19::nat) + 5 = 24"
  "(19::nat) + 6 = 25"
  by simp_all

lemma Append_at_19:
  "Append (take 0 (drop 19 the_document)) (fed 19) = Some (Inr (), fed 19)"
  "Append (take 1 (drop 19 the_document)) (fed 19) = Some (Inr (), fed 20)"
  "Append (take 2 (drop 19 the_document)) (fed 19) = Some (Inr (), fed 21)"
  "Append (take 3 (drop 19 the_document)) (fed 19) = Some (Inr (), fed 22)"
  "Append (take 4 (drop 19 the_document)) (fed 19) = Some (Inr (), fed 23)"
  "Append (take 5 (drop 19 the_document)) (fed 19) = Some (Inr (), fed 24)"
  "Append (take 6 (drop 19 the_document)) (fed 19) = Some (Inr (), fed 25)"
  by (simp_all add: xml_eval)

lemma Append_fed_19:
  assumes "j \<le> 6"
  shows "Append (take j (drop 19 the_document)) (fed 19) = Some (Inr (), fed (19 + j))"
proof -
  from assms have "j = 0 \<or> j = 1 \<or> j = 2 \<or> j = 3 \<or> j = 4 \<or> j = 5 \<or> j = 6" by arith
  then show ?thesis by (elim disjE) (simp_all only: sums_19 Append_at_19)
qed

lemma sums_20:
  "(20::nat) + 0 = 20"
  "(20::nat) + 1 = 21"
  "(20::nat) + 2 = 22"
  "(20::nat) + 3 = 23"
  "(20::nat) + 4 = 24"
  "(20::nat) + 5 = 25"
  by simp_all

lemma Append_at_20:
  "Append (take 0 (drop 20 the_document)) (fed 20) = Some (Inr (), fed 20)"
  "Append (take 1 (drop 20 the_document)) (fed 20) = Some (Inr (), fed 21)"
  "Append (take 2 (drop 20 the_document)) (fed 20) = Some (Inr (), fed 22)"
  "Append (take 3 (drop 20 the_document)) (fed 20) = Some (Inr (), fed 23)"
  "Append (take 4 (drop 20 the_document)) (fed 20) = Some (Inr (), fed 24)"
  "Append (take 5 (drop 20 the_document)) (fed 20) = Some (Inr (), fed 25)"
  by (simp_all add: xml_eval)

lemma Append_fed_20:
  assumes "j \<le> 5"
  shows "Append (take j (drop 20 the_document)) (fed 20) = Some (Inr (), fed (20 + j))"
proof -
  from assms have "j = 0 \<or> j = 1 \<or> j = 2 \<or> j = 3 \<or> j = 4 \<or> j = 5" by arith
  then show ?thesis by (elim disjE) (simp_all only: sums_20 Append_at_20)
qed

lemma sums_21:
  "(21::nat) + 0 = 21"
  "(21::nat) + 1 = 22"
  "(21::nat) + 2 = 23"
  "(21::nat) + 3 = 24"
  "(21::nat) + 4 = 25"
  by simp_all

lemma Append_at_21:
  "Append (take 0 (drop 21 the_document)) (fed 21) = Some (Inr (), fed 21)"
  "Append (take 1 (drop 21 the_document)) (fed 21) = Some (Inr (), fed 22)"
  "Append (take 2 (drop 21 the_document)) (fed 21) = Some (Inr (), fed 23)"
  "Append (take 3 (drop 21 the_document)) (fed 21) = Some (Inr (), fed 24)"
  "Append (take 4 (drop 21 the_document)) (fed 21) = Some (Inr (), fed 25)"
  by (simp_all add: xml_eval)

lemma Append_fed_21:
  assumes "j \<le> 4"
  shows "Append (take j (drop 21 the_document)) (fed 21) = Some (Inr (), fed (21 + j))"
proof -
  from assms have "j = 0 \<or> j = 1 \<or> j = 2 \<or> j = 3 \<or> j = 4" by arith
  then show ?thesis by (elim disjE) (simp_all only: sums_21 Append_at_21)
qed

lemma sums_22:
  "(22::nat) + 0 = 22"
  "(22::nat) + 1 = 23"
  "(22::nat) + 2 = 24"
  "(22::nat) + 3 = 25"
  by simp_all

lemma Append_at_22:
  "Append (take 0 (drop 22 the_document)) (fed 22) = Some (Inr (), fed 22)"
  "Append (take 1 (drop 22 the_document)) (fed 22) = Some (Inr (), fed 23)"
  "Append (take 2 (drop 22 the_document)) (fed 22) = Some (Inr (), fed 24)"
  "Append (take 3 (drop 22 the_document)) (fed 22) = Some (Inr (), fed 25)"
  by (simp_all add: xml_eval)

lemma Append_fed_22:
  assumes "j \<le> 3"
  shows "Append (take j (drop 22 the_document)) (fed 22) = Some (Inr (), fed (22 + j))"
proof -
  from assms have "j = 0 \<or> j = 1 \<or> j = 2 \<or> j = 3" by arith
  then show ?thesis by (elim disjE) (simp_all only: sums_22 Append_at_22)
qed

lemma sums_23:
  "(23::nat) + 0 = 23"
  "(23::nat) + 1 = 24"
  "(23::nat) + 2 = 25"
  by simp_all

lemma Append_at_23:
  "Append (take 0 (drop 23 the_document)) (fed 23) = Some (Inr (), fed 23)"
  "Append (take 1 (drop 23 the_document)) (fed 23) = Some (Inr (), fed 24)"
  "Append (take 2 (drop 23 the_document)) (fed 23) = Some (Inr (), fed 25)"
  by (simp_all add: xml_eval)

lemma Append_fed_23:
  assumes "j \<le> 2"
  shows "Append (take j (drop 23 the_document)) (fed 23) = Some (Inr (), fed (23 + j))"
proof -
  from assms have "j = 0 \<or> j = 1 \<or> j = 2" by arith
  then show ?thesis by (elim disjE) (simp_all only: sums_23 Append_at_23)
qed

lemma sums_24:
  "(24::nat) + 0 = 24"
  "(24::nat) + 1 = 25"
  by simp_all

lemma Append_at_24:
  "Append (take 0 (drop 24 the_document)) (fed 24) = Some (Inr (), fed 24)"
  "Append (take 1 (drop 24 the_document)) (fed 24) = Some (Inr (), fed 25)"
  by (simp_all add: xml_eval)

lemma Append_fed_24:
  assumes "j \<le> 1"
  shows "Append (take j (drop 24 the_document)) (fed 24) = Some (Inr (), fed (24 + j))"
proof -
  from assms have "j = 0 \<or> j = 1" by arith
  then show ?thesis by (elim disjE) (simp_all only: sums_24 Append_at_24)
qed

lemma sums_25:
  "(25::nat) + 0 = 25"
  by simp_all

lemma Append_at_25:
  "Append (take 0 (drop 25 the_document)) (fed 25) = Some (Inr (), fed 25)"
  by (simp_all add: xml_eval)

lemma Append_fed_25:
  assumes "j \<le> 0"
  shows "Append (take j (drop 25 the_document)) (fed 25) = Some (Inr (), fed (25 + j))"
proof -
  from assms have "j = 0" by arith
  then show ?thesis by (simp_all only: sums_25 Append_at_25)
qed

lemma Append_fed:
  assumes "k + j \<le> 25"
  shows "Append (take j (drop k the_document)) (fed k) = Some (Inr (), fed (k + j))"
proof -
  from assms have "k = 0 \<or> k = 1 \<or> k = 2 \<or> k = 3 \<or> k = 4 \<or> k = 5 \<or> k = 6 \<or> k = 7 \<or> k = 8 \<or> k = 9 \<or> k = 10 \<or> k = 11 \<or> k = 12 \<or> k = 13 \<or> k = 14 \<or> k = 15 \<or> k = 16 \<or> k = 17 \<or> k = 18 \<or> k = 19 \<or> k = 20 \<or> k = 21 \<or> k = 22 \<or> k = 23 \<or> k = 24 \<or> k = 25" by arith
  moreover have ?thesis if k: "k = 0"
  proof -
    from assms k have "j \<le> 25" by simp
    from Append_fed_0 [OF this] show ?thesis unfolding k .
  qed
  moreover have ?thesis if k: "k = 1"
  proof -
    from assms k have "j \<le> 24" by simp
    from Append_fed_1 [OF this] show ?thesis unfolding k .
  qed
  moreover have ?thesis if k: "k = 2"
  proof -
    from assms k have "j \<le> 23" by simp
    from Append_fed_2 [OF this] show ?thesis unfolding k .
  qed
  moreover have ?thesis if k: "k = 3"
  proof -
    from assms k have "j \<le> 22" by simp
    from Append_fed_3 [OF this] show ?thesis unfolding k .
  qed
  moreover have ?thesis if k: "k = 4"
  proof -
    from assms k have "j \<le> 21" by simp
    from Append_fed_4 [OF this] show ?thesis unfolding k .
  qed
  moreover have ?thesis if k: "k = 5"
  proof -
    from assms k have "j \<le> 20" by simp
    from Append_fed_5 [OF this] show ?thesis unfolding k .
  qed
  moreover have ?thesis if k: "k = 6"
  proof -
    from assms k have "j \<le> 19" by simp
    from Append_fed_6 [OF this] show ?thesis unfolding k .
  qed
  moreover have ?thesis if k: "k = 7"
  proof -
    from assms k have "j \<le> 18" by simp
    from Append_fed_7 [OF this] show ?thesis unfolding k .
  qed
  moreover have ?thesis if k: "k = 8"
  proof -
    from assms k have "j \<le> 17" by simp
    from Append_fed_8 [OF this] show ?thesis unfolding k .
  qed
  moreover have ?thesis if k: "k = 9"
  proof -
    from assms k have "j \<le> 16" by simp
    from Append_fed_9 [OF this] show ?thesis unfolding k .
  qed
  moreover have ?thesis if k: "k = 10"
  proof -
    from assms k have "j \<le> 15" by simp
    from Append_fed_10 [OF this] show ?thesis unfolding k .
  qed
  moreover have ?thesis if k: "k = 11"
  proof -
    from assms k have "j \<le> 14" by simp
    from Append_fed_11 [OF this] show ?thesis unfolding k .
  qed
  moreover have ?thesis if k: "k = 12"
  proof -
    from assms k have "j \<le> 13" by simp
    from Append_fed_12 [OF this] show ?thesis unfolding k .
  qed
  moreover have ?thesis if k: "k = 13"
  proof -
    from assms k have "j \<le> 12" by simp
    from Append_fed_13 [OF this] show ?thesis unfolding k .
  qed
  moreover have ?thesis if k: "k = 14"
  proof -
    from assms k have "j \<le> 11" by simp
    from Append_fed_14 [OF this] show ?thesis unfolding k .
  qed
  moreover have ?thesis if k: "k = 15"
  proof -
    from assms k have "j \<le> 10" by simp
    from Append_fed_15 [OF this] show ?thesis unfolding k .
  qed
  moreover have ?thesis if k: "k = 16"
  proof -
    from assms k have "j \<le> 9" by simp
    from Append_fed_16 [OF this] show ?thesis unfolding k .
  qed
  moreover have ?thesis if k: "k = 17"
  proof -
    from assms k have "j \<le> 8" by simp
    from Append_fed_17 [OF this] show ?thesis unfolding k .
  qed
  moreover have ?thesis if k: "k = 18"
  proof -
    from assms k have "j \<le> 7" by simp
    from Append_fed_18 [OF this] show ?thesis unfolding k .
  qed
  moreover have ?thesis if k: "k = 19"
  proof -
    from assms k have "j \<le> 6" by simp
    from Append_fed_19 [OF this] show ?thesis unfolding k .
  qed
  moreover have ?thesis if k: "k = 20"
  proof -
    from assms k have "j \<le> 5" by simp
    from Append_fed_20 [OF this] show ?thesis unfolding k .
  qed
  moreover have ?thesis if k: "k = 21"
  proof -
    from assms k have "j \<le> 4" by simp
    from Append_fed_21 [OF this] show ?thesis unfolding k .
  qed
  moreover have ?thesis if k: "k = 22"
  proof -
    from assms k have "j \<le> 3" by simp
    from Append_fed_22 [OF this] show ?thesis unfolding k .
  qed
  moreover have ?thesis if k: "k = 23"
  proof -
    from assms k have "j \<le> 2" by simp
    from Append_fed_23 [OF this] show ?thesis unfolding k .
  qed
  moreover have ?thesis if k: "k = 24"
  proof -
    from assms k have "j \<le> 1" by simp
    from Append_fed_24 [OF this] show ?thesis unfolding k .
  qed
  moreover have ?thesis if k: "k = 25"
  proof -
    from assms k have "j \<le> 0" by simp
    from Append_fed_25 [OF this] show ?thesis unfolding k .
  qed
  ultimately show ?thesis by blast
qed

lemma length_the_document: "length the_document = 25"
  by (simp add: the_document_def)

lemma Append_all_fed:
  "k \<le> 25 \<Longrightarrow> concat chunks = drop k the_document \<Longrightarrow>
   Append_all chunks (fed k) = Some (Inr (), fed 25)"
proof (induction chunks arbitrary: k)
  case Nil
  then have "k = 25" using length_the_document by simp
  then show ?case by simp
next
  case (Cons v vs)
  let ?j = "length v"
  from Cons.prems(2) have d: "v @ concat vs = drop k the_document" by simp
  then have v: "v = take ?j (drop k the_document)"
    by (metis append_eq_conv_conj)
  from d have vs: "concat vs = drop (k + ?j) the_document"
    by (metis append_eq_conv_conj drop_drop add.commute)
  from d have "?j \<le> length (drop k the_document)"
    by (metis le_add1 length_append)
  with Cons.prems(1) have kj: "k + ?j \<le> 25" by (simp add: length_the_document)
  have "Append v (fed k) = Some (Inr (), fed (k + ?j))"
    using Append_fed [OF kj] v by simp
  then show ?case using Cons.IH [OF kj vs] by (simp add: and_then_def)
qed

text \<open>
  Claim C5, as stated: feeding \<^verbatim>\<open><a:b x='1'><c/>text</a:b>\<close> emits the start of \<open>a:b\<close>, the
  attribute name \<open>x\<close>, the attribute value \<open>1\<close>, the start and the end of \<open>c\<close>, the data
  \<open>text\<close> and the end of \<open>a:b\<close>.  Fed in one piece, the document does not produce this
  sequence of events.
\<close>

theorem self_close_then_text_counterexample:
  "map_option (\<lambda>x. xml_raised (snd x)) (Append_all [the_document] new_parser) \<noteq>
     Some [StartElementReceived ''a'' ''b'', AttributeNameReceived [] ''x'',
           AttributeValueReceived ''1'', StartElementReceived [] ''c'',
           EndElementReceived [] ''c'', Xml_DataReceived ''text'',
           EndElementReceived ''a'' ''b'']"
  by (simp add: and_then_def new_parser_def Append_def the_document_def xml_Fire.simps xml_table
        xml_handlers)

text \<open>
  Claim C5, amended: in any chunking of \<^verbatim>\<open><a:b x='1'><c/>text</a:b>\<close> the parser emits exactly
  the start of \<open>a:b\<close>, the attribute name \<open>x\<close> with an empty namespace, the attribute value
  \<open>1\<close>, the start of \<open>c\<close> and the end of \<open>c\<close>, both with an empty namespace, and nothing more.
  The immediate self-close emits the start and then the end, and
  \<^verbatim>\<open>State_ImmediateEndElement_Entered\<close> returns to \<^verbatim>\<open>State_OpenElement\<close>, whose handler
  only consumes a \<open><\<close>.  The bytes \<^verbatim>\<open>text</a:b>\<close> stay in the buffer, no data event and no
  end of \<open>a:b\<close> is emitted, and every call of \<^verbatim>\<open>Append\<close> returns without an exception.
\<close>

theorem self_close_then_text:
  "concat chunks = the_document \<Longrightarrow>
   Append_all chunks new_parser =
     Some (Inr (),
       \<lparr>xml_state = Xml_State_OpenElement, xml_buffer = ''text</a:b>'',
        elementNamespaceAndName = [''c''],
        xml_raised =
          [StartElementReceived ''a'' ''b'', AttributeNameReceived [] ''x'',
           AttributeValueReceived ''1'', StartElementReceived [] ''c'',
           EndElementReceived [] ''c'']\<rparr>)"
  using Append_all_fed [of 0 chunks] by (simp add: fed_values new_parser_def)

text \<open>The amended claim C5 at a chunking in five pieces, one of them empty.\<close>

theorem self_close_then_text_witness:
  "Append_all [''<a:b '', ''x='1'><c'', [], ''/>te'', ''xt</a:b>''] new_parser =
     Some (Inr (),
       \<lparr>xml_state = Xml_State_OpenElement, xml_buffer = ''text</a:b>'',
        elementNamespaceAndName = [''c''],
        xml_raised =
          [StartElementReceived ''a'' ''b'', AttributeNameReceived [] ''x'',
           AttributeValueReceived ''1'', StartElementReceived [] ''c'',
           EndElementReceived [] ''c'']\<rparr>)"
  using self_close_then_text [of "[''<a:b '', ''x='1'><c'', [], ''/>te'', ''xt</a:b>'']"]
  by (simp add: the_document_def)


end
